theory Spec2Isabelle
  imports Main "HOL-Library.Sublist"
begin

section \<open>Python values and errors\<close>

text \<open>
  The module \<^verbatim>\<open>pyncoda/ncoda_07a_generate_hui.py\<close> orchestrates the generation of a
  housing unit inventory: it asks the IN-CORE catalog whether the data set exists
  (\<^verbatim>\<open>return_dataservice_id\<close>), and otherwise runs the county workflow for every county
  of a community, concatenates the county tables, removes the \<^verbatim>\<open>.0\<close> suffixes, writes
  the table twice and uploads it (\<^verbatim>\<open>generate_hui_v2_for_incore\<close>).

  Every exception the code can raise is a value: a function that can raise returns
  \<open>py_error + 'a\<close>, with \<open>Inl\<close> for the exception. Output of \<^verbatim>\<open>print\<close> is not modelled;
  the expressions a \<^verbatim>\<open>print\<close> evaluates are, since they can raise. The model starts
  from an object that \<^verbatim>\<open>__init__\<close> has built (it stores its arguments and creates the
  output folder).
\<close>

datatype py_error =
    TypeError
  | KeyError
  | IndexError
  | ValueError
  | EOFError
  | OverflowError
  | UnboundLocalError
  | ExternalError string

text \<open>
  What \<^verbatim>\<open>response.json()\<close> decodes to. Python's \<^verbatim>\<open>None\<close> is \<open>JNull\<close>; the value a
  function of the module returns is a \<open>jval\<close> too, so that \<^verbatim>\<open>return None\<close> is
  \<open>Inr JNull\<close>.
\<close>

datatype jval =
    JNull
  | JBool bool
  | JInt int
  | JStr string
  | JList "jval list"
  | JDict "(string \<times> jval) list"

text \<open>\<^verbatim>\<open>v[key]\<close> for a string key: only a dict accepts it.\<close>

fun py_getitem_key :: "jval \<Rightarrow> string \<Rightarrow> py_error + jval" where
  "py_getitem_key (JDict kvs) k =
     (case map_of kvs k of None \<Rightarrow> Inl KeyError | Some v \<Rightarrow> Inr v)"
| "py_getitem_key _ k = Inl TypeError"

text \<open>
  \<^verbatim>\<open>v[i]\<close> for an integer: a list or a string is indexed, negative indices counting
  from the end; a decoded JSON object has string keys only, so an integer is a missing
  key.
\<close>

definition list_index :: "'a list \<Rightarrow> int \<Rightarrow> py_error + 'a" where
  "list_index xs i =
     (if 0 \<le> i \<and> i < int (length xs) then Inr (xs ! nat i)
      else if i < 0 \<and> - i \<le> int (length xs) then Inr (xs ! nat (int (length xs) + i))
      else Inl IndexError)"

fun py_getitem_idx :: "jval \<Rightarrow> int \<Rightarrow> py_error + jval" where
  "py_getitem_idx (JList xs) i = list_index xs i"
| "py_getitem_idx (JStr s) i =
     (case list_index s i of Inl e \<Rightarrow> Inl e | Inr c \<Rightarrow> Inr (JStr [c]))"
| "py_getitem_idx (JDict kvs) i = Inl KeyError"
| "py_getitem_idx _ i = Inl TypeError"

text \<open>\<^verbatim>\<open>len(v)\<close> and the items a \<^verbatim>\<open>for\<close> loop over \<open>v\<close> visits.\<close>

fun py_len :: "jval \<Rightarrow> py_error + nat" where
  "py_len (JList xs) = Inr (length xs)"
| "py_len (JDict kvs) = Inr (length kvs)"
| "py_len (JStr s) = Inr (length s)"
| "py_len _ = Inl TypeError"

fun py_iter :: "jval \<Rightarrow> py_error + jval list" where
  "py_iter (JList xs) = Inr xs"
| "py_iter (JDict kvs) = Inr (map (\<lambda>kv. JStr (fst kv)) kvs)"
| "py_iter (JStr s) = Inr (map (\<lambda>c. JStr [c]) s)"
| "py_iter _ = Inl TypeError"

subsection \<open>Decimal numerals: \<^verbatim>\<open>str\<close> and \<^verbatim>\<open>int\<close>\<close>

definition digit_char :: "nat \<Rightarrow> char" where
  "digit_char d = ''0123456789'' ! d"

function str_nat :: "nat \<Rightarrow> string" where
  "str_nat n = (if n < 10 then [digit_char n] else str_nat (n div 10) @ [digit_char (n mod 10)])"
  by pat_completeness auto
termination
  by (relation "measure id") auto

declare str_nat.simps [simp del]

definition str_int :: "int \<Rightarrow> string" where
  "str_int i = (if i < 0 then ''-'' @ str_nat (nat (- i)) else str_nat (nat i))"

definition is_digit :: "char \<Rightarrow> bool" where
  "is_digit c = (c \<in> set ''0123456789'')"

definition digit_val :: "char \<Rightarrow> nat" where
  "digit_val c = of_char c - 48"

text \<open>
  A character of a \<open>string\<close> stands for a code point below 256. The whitespace
  \<^verbatim>\<open>int\<close> skips around a literal is not the set \<^verbatim>\<open>str.strip()\<close> removes: an ASCII
  character is skipped when it is a space, tab, line feed, vertical tab, form feed or
  carriage return, so that the separators \<^verbatim>\<open>\x1c\<close> to \<^verbatim>\<open>\x1f\<close> are left in place and
  \<^verbatim>\<open>int('\x1c1')\<close> raises \<^verbatim>\<open>ValueError\<close>; a character beyond ASCII is replaced by a
  space, and so skipped, when Unicode counts it as whitespace, which below 256 holds for
  \<^verbatim>\<open>\x85\<close> and \<^verbatim>\<open>\xa0\<close> (\<^verbatim>\<open>int('\xa01')\<close> is 1). No character below 256 other than
  \<^verbatim>\<open>0\<close> to \<^verbatim>\<open>9\<close> is a decimal digit.
\<close>

definition is_space :: "char \<Rightarrow> bool" where
  "is_space c = (of_char c \<in> {9, 10, 11, 12, 13, 32, 133, 160 :: nat})"

definition skip_spaces :: "string \<Rightarrow> string" where
  "skip_spaces s = rev (dropWhile is_space (rev (dropWhile is_space s)))"

text \<open>
  The digits of an integer literal, after the first one was seen: digits, with single
  underscores between them.
\<close>

fun parse_digits :: "string \<Rightarrow> nat \<Rightarrow> nat option" where
  "parse_digits [] acc = Some acc"
| "parse_digits (c # cs) acc =
     (if is_digit c then parse_digits cs (acc * 10 + digit_val c)
      else if c = CHR ''_'' then
        (case cs of
           [] \<Rightarrow> None
         | d # ds \<Rightarrow> if is_digit d then parse_digits cs acc else None)
      else None)"

text \<open>\<^verbatim>\<open>int(s)\<close> for a string: surrounding whitespace, a sign, a decimal literal.\<close>

definition py_int_of_str :: "string \<Rightarrow> py_error + int" where
  "py_int_of_str s =
     (let t = skip_spaces s;
          neg = (case t of [] \<Rightarrow> False | c # r \<Rightarrow> c = CHR ''-'');
          body = (case t of [] \<Rightarrow> [] | c # r \<Rightarrow> if c = CHR ''-'' \<or> c = CHR ''+'' then r else t)
      in case body of
           [] \<Rightarrow> Inl ValueError
         | d # r \<Rightarrow>
             if is_digit d then
               (case parse_digits body 0 of
                  None \<Rightarrow> Inl ValueError
                | Some n \<Rightarrow> Inr (if neg then - int n else int n))
             else Inl ValueError)"

definition bind_err :: "'e + 'a \<Rightarrow> ('a \<Rightarrow> 'e + 'b) \<Rightarrow> 'e + 'b" where
  "bind_err r f = (case r of Inl e \<Rightarrow> Inl e | Inr a \<Rightarrow> f a)"

section \<open>Tables and their cells\<close>

text \<open>
  A cell of a data frame, as the function given to \<^verbatim>\<open>applymap\<close> receives it: a Python
  \<^verbatim>\<open>int\<close>, \<^verbatim>\<open>float\<close>, \<^verbatim>\<open>str\<close> or \<^verbatim>\<open>bool\<close>; a missing value is the float
  \<^verbatim>\<open>nan\<close>, as a join leaves it. No arithmetic is done
  on a float here: the code only prints it (\<^verbatim>\<open>str\<close>) and truncates it (\<^verbatim>\<open>int\<close>). A finite
  float is therefore kept as the decimal numeral its shortest \<^verbatim>\<open>repr\<close> has: a sign, the
  digits \<open>m\<close> and a decimal exponent \<open>e\<close>, standing for \<open>m * 10 ^ e\<close>, where \<open>m\<close> does not
  end in a zero digit (\<open>4.0\<close> is \<open>CFloat False 4 0\<close>, \<open>45231.5\<close> is
  \<open>CFloat False 452315 (-1)\<close>, \<open>0.0\<close> is \<open>CFloat False 0 0\<close>).
\<close>

datatype cell =
    CInt int
  | CFloat bool nat int
  | CNaN
  | CInf bool
  | CStr string
  | CBool bool

type_synonym table = "cell list list"

definition float_wf :: "nat \<Rightarrow> int \<Rightarrow> bool" where
  "float_wf m e = (if m = 0 then e = 0 else m mod 10 \<noteq> 0)"

text \<open>
  \<^verbatim>\<open>str\<close> of a float (CPython's \<^verbatim>\<open>repr\<close> format): with \<open>decpt\<close> the position of the
  decimal point after the first digit group, the numeral is printed in positional
  notation when \<open>-4 < decpt \<le> 16\<close>, with \<^verbatim>\<open>.0\<close> added when no fractional digit is left,
  and with an exponent of at least two digits otherwise.
\<close>

definition py_float_str :: "bool \<Rightarrow> nat \<Rightarrow> int \<Rightarrow> string" where
  "py_float_str neg m e =
     (let ds = str_nat m;
          decpt = int (length ds) + e;
          body =
            (if - 4 < decpt \<and> decpt \<le> 16 then
               (if 0 \<le> e then ds @ replicate (nat e) CHR ''0'' @ ''.0''
                else if 0 < decpt then take (nat decpt) ds @ ''.'' @ drop (nat decpt) ds
                else ''0.'' @ replicate (nat (- decpt)) CHR ''0'' @ ds)
             else
               (let x = decpt - 1;
                    xs = str_nat (nat \<bar>x\<bar>)
                in take 1 ds @ (if 1 < length ds then ''.'' @ drop 1 ds else [])
                   @ ''e'' @ (if x < 0 then ''-'' else ''+'')
                   @ (if length xs < 2 then ''0'' @ xs else xs)))
      in (if neg then ''-'' else []) @ body)"

fun py_str :: "cell \<Rightarrow> string" where
  "py_str (CInt i) = str_int i"
| "py_str (CFloat neg m e) = py_float_str neg m e"
| "py_str CNaN = ''nan''"
| "py_str (CInf neg) = (if neg then ''-inf'' else ''inf'')"
| "py_str (CStr s) = s"
| "py_str (CBool b) = (if b then ''True'' else ''False'')"

text \<open>\<^verbatim>\<open>int(cell)\<close>: a float is truncated towards zero.\<close>

definition float_trunc :: "bool \<Rightarrow> nat \<Rightarrow> int \<Rightarrow> int" where
  "float_trunc neg m e =
     (let a = (if 0 \<le> e then int m * 10 ^ nat e else int m div 10 ^ nat (- e))
      in if neg then - a else a)"

fun py_int :: "cell \<Rightarrow> py_error + int" where
  "py_int (CInt i) = Inr i"
| "py_int (CFloat neg m e) = Inr (float_trunc neg m e)"
| "py_int CNaN = Inl ValueError"
| "py_int (CInf neg) = Inl OverflowError"
| "py_int (CStr s) = py_int_of_str s"
| "py_int (CBool b) = Inr (if b then 1 else 0)"

definition endswith :: "string \<Rightarrow> string \<Rightarrow> bool" where
  "endswith s ending = (length ending \<le> length s \<and> drop (length s - length ending) s = ending)"

text \<open>
  Line 223, the function applied to every cell:
  \<^verbatim>\<open>lambda cell: int(cell) if str(cell).endswith('.0') else cell\<close>.
\<close>

definition remove_dot_zero :: "cell \<Rightarrow> py_error + cell" where
  "remove_dot_zero c =
     (if endswith (py_str c) ''.0'' then bind_err (py_int c) (\<lambda>i. Inr (CInt i)) else Inr c)"

fun map_err :: "('a \<Rightarrow> 'e + 'b) \<Rightarrow> 'a list \<Rightarrow> 'e + 'b list" where
  "map_err f [] = Inr []"
| "map_err f (x # xs) =
     bind_err (f x) (\<lambda>y. bind_err (map_err f xs) (\<lambda>ys. Inr (y # ys)))"

subsection \<open>The dtype of a column\<close>

text \<open>
  A table is the list of its rows, and a column of a data frame has one dtype, which
  decides how its cells are stored: a column of ints is \<^verbatim>\<open>int64\<close>, a column of floats
  (\<^verbatim>\<open>nan\<close> and \<^verbatim>\<open>inf\<close> are floats) is \<^verbatim>\<open>float64\<close>, and a column that holds a string or
  a bool keeps every cell as the Python object it is (\<^verbatim>\<open>object\<close>; a column of bools
  only is \<^verbatim>\<open>bool\<close>, which changes no cell either, and is not told apart). When ints
  and floats meet in one column the column is \<^verbatim>\<open>float64\<close>.
\<close>

datatype dtype = Int64 | Float64 | Object

fun cell_dtype :: "cell \<Rightarrow> dtype" where
  "cell_dtype (CInt i) = Int64"
| "cell_dtype (CFloat neg m e) = Float64"
| "cell_dtype CNaN = Float64"
| "cell_dtype (CInf neg) = Float64"
| "cell_dtype (CStr s) = Object"
| "cell_dtype (CBool b) = Object"

fun common_dtype :: "dtype \<Rightarrow> dtype \<Rightarrow> dtype" where
  "common_dtype Object d = Object"
| "common_dtype d Object = Object"
| "common_dtype Float64 d = Float64"
| "common_dtype d Float64 = Float64"
| "common_dtype Int64 Int64 = Int64"

text \<open>
  An int stored in a \<^verbatim>\<open>float64\<close> column is the float of its value: \<open>4\<close> is \<open>4.0\<close>, that
  is \<open>CFloat False 4 0\<close>, and \<open>50000\<close> is \<open>CFloat False 5 4\<close>. The numeral is the exact
  value, which is the float the library stores for every int up to \<open>2 ^ 53\<close> in
  magnitude and for every int that \<^verbatim>\<open>int\<close> made from a float; the rounding of a larger
  int is not followed.
\<close>

function drop_zeros :: "nat \<Rightarrow> int \<Rightarrow> nat \<times> int" where
  "drop_zeros m e =
     (if m \<noteq> 0 \<and> m mod 10 = 0 then drop_zeros (m div 10) (e + 1) else (m, e))"
  by pat_completeness auto
termination
  by (relation "measure fst") auto

declare drop_zeros.simps [simp del]

fun as_float :: "cell \<Rightarrow> cell" where
  "as_float (CInt i) = (case drop_zeros (nat \<bar>i\<bar>) 0 of (m, e) \<Rightarrow> CFloat (i < 0) m e)"
| "as_float c = c"

text \<open>
  The dtypes of the columns of a table, from its cells, and the table with every column
  stored in its dtype. The rows keep their order and their lengths; the only cells that
  change are the ints of a column that also holds a float and nothing but numbers.
\<close>

fun join_dtypes :: "dtype list \<Rightarrow> dtype list \<Rightarrow> dtype list" where
  "join_dtypes [] ds = ds"
| "join_dtypes ds [] = ds"
| "join_dtypes (a # as) (b # bs) = common_dtype a b # join_dtypes as bs"

fun column_dtypes :: "table \<Rightarrow> dtype list" where
  "column_dtypes [] = []"
| "column_dtypes (row # rows) = join_dtypes (map cell_dtype row) (column_dtypes rows)"

fun astype_row :: "dtype list \<Rightarrow> cell list \<Rightarrow> cell list" where
  "astype_row (d # ds) (c # cs) = (if d = Float64 then as_float c else c) # astype_row ds cs"
| "astype_row ds cs = cs"

definition infer_dtypes :: "table \<Rightarrow> table" where
  "infer_dtypes t = map (astype_row (column_dtypes t)) t"

text \<open>
  \<^verbatim>\<open>DataFrame.applymap\<close> applies the function to every cell, raises what the function
  raises, and builds every column of its result from the values the function returned
  for it, choosing the dtype of the column anew from these values: an int the function
  returned for a cell of a column in which a float (a \<^verbatim>\<open>nan\<close>, a fraction) is left
  is stored as a float again. The only error the function of line 223 can raise is
  \<^verbatim>\<open>ValueError\<close>, so the order in which the cells are visited does not show.

  The county tables come from one writer (\<^verbatim>\<open>save_incore_version2\<close>) and share its
  columns, so that \<^verbatim>\<open>pd.concat\<close> along axis 0 with \<^verbatim>\<open>ignore_index=True\<close> appends
  their rows; a column of the result has the common dtype of the columns it is made of,
  so that an \<^verbatim>\<open>int64\<close> column of one county joined with a \<^verbatim>\<open>float64\<close> column of
  another holds floats. (The dtype of a column is read from its cells: a column of a
  county table that holds numbers only is taken to be stored as \<^verbatim>\<open>int64\<close> or
  \<^verbatim>\<open>float64\<close>, not as objects.) \<^verbatim>\<open>pd.concat\<close> of no table raises \<^verbatim>\<open>ValueError\<close>.
\<close>

definition applymap :: "(cell \<Rightarrow> py_error + cell) \<Rightarrow> table \<Rightarrow> py_error + table" where
  "applymap f t = bind_err (map_err (map_err f) t) (\<lambda>u. Inr (infer_dtypes u))"

definition pd_concat :: "table list \<Rightarrow> py_error + table" where
  "pd_concat ts = (if ts = [] then Inl ValueError else Inr (infer_dtypes (concat ts)))"


section \<open>The object and its collaborators\<close>

text \<open>
  The fields of \<^verbatim>\<open>generate_hui_functions\<close>, set by \<^verbatim>\<open>__init__\<close>. \<^verbatim>\<open>communities\<close> is a
  dict of dicts; a Python dict keeps its keys in insertion order, so it is an association
  list with distinct keys. \<open>basevintage\<close> and the community keys are kept as the text an
  f-string prints for them.
\<close>

record county =
  FIPS_Code :: string
  Name :: string

record community =
  community_name :: string
  counties :: "(string \<times> county) list"

record self =
  communities :: "(string \<times> community) list"
  seed :: int
  version :: string
  version_text :: string
  basevintage :: string
  outputfolder :: string
  outputfolders :: "(string \<times> string) list"
  savefiles :: bool

text \<open>
  The arguments \<^verbatim>\<open>hui_workflow_functions\<close> is built with, apart from the folders:
  the county run context.
\<close>

record run_context =
  state_county :: string
  state_county_name :: string
  run_seed :: int
  run_version :: string
  run_version_text :: string
  run_basevintage :: string

text \<open>
  The object \<^verbatim>\<open>data_service.client.get\<close> returns belongs to a library. The code calls
  \<^verbatim>\<open>.json()\<close> on it, iterates over it (\<^verbatim>\<open>enumerate(matched_datasets)\<close>) and subscripts it
  (\<^verbatim>\<open>matched_datasets[i]\<close>); the three are the fields of the model, each able to raise.
\<close>

record response =
  json :: "py_error + jval"
  iter_count :: "py_error + nat"
  getitem :: "int \<Rightarrow> py_error + jval"

text \<open>The calls that leave the process, in the order they are made.\<close>

datatype event =
    Login
  | Get string "(string \<times> string) list"
  | DirectoryDesign string string
  | HuiWorkflow run_context
  | ToCsv string table
  | IncomeDistribution string string
  | Codebook string
  | CreateDataset "(string \<times> string) list"
  | AddFiles jval "string list"

text \<open>
  The state the code acts on: the catalog of the data service (of a type \<open>'c\<close> left
  open), the lines waiting on standard input, and the calls made so far.
\<close>

record 'c world =
  catalog :: 'c
  console :: "string list"
  trace :: "event list"

text \<open>
  What the code imports. \<open>login\<close> is \<^verbatim>\<open>IncoreClient()\<close> followed by \<^verbatim>\<open>DataService(client)\<close>
  and gives the base URL of the service. \<open>county_table\<close> stands for the census sources
  and the seeded generator behind \<^verbatim>\<open>hui_workflow_functions\<close>. Of the keyword arguments
  of \<^verbatim>\<open>income_distribution\<close> and \<^verbatim>\<open>codebook\<close> the model passes those that vary within a
  run.
\<close>

record 'c externals =
  login :: "py_error + string"
  urljoin :: "string \<Rightarrow> string \<Rightarrow> string"
  client_get :: "'c \<Rightarrow> string \<Rightarrow> (string \<times> string) list \<Rightarrow> py_error + response"
  directory_design :: "string \<Rightarrow> string \<Rightarrow> py_error + (string \<times> string) list"
  county_table :: "run_context \<Rightarrow> py_error + table"
  sys_path :: "string list"
  to_csv :: "string \<Rightarrow> table \<Rightarrow> py_error option"
  income_distribution :: "table \<Rightarrow> string \<Rightarrow> string \<Rightarrow> (string \<times> string) list \<Rightarrow> py_error + string"
  create_codebook :: "table \<Rightarrow> string \<Rightarrow> string \<Rightarrow> string list \<Rightarrow> py_error option"
  create_dataset :: "'c \<Rightarrow> (string \<times> string) list \<Rightarrow> py_error + (jval \<times> 'c)"
  add_files_to_dataset :: "'c \<Rightarrow> jval \<Rightarrow> string list \<Rightarrow> py_error + 'c"

definition emit :: "event list \<Rightarrow> 'c world \<Rightarrow> 'c world" where
  "emit evs w = w\<lparr>trace := trace w @ evs\<rparr>"

section \<open>The catalog check\<close>

text \<open>\<^verbatim>\<open>check_file_on_incore\<close>, lines 118 to 130.\<close>

definition check_file_on_incore ::
  "'c externals \<Rightarrow> string \<Rightarrow> 'c world \<Rightarrow> (py_error + response) \<times> 'c world" where
  "check_file_on_incore ext title w =
     (case login ext of
        Inl e \<Rightarrow> (Inl e, emit [Login] w)
      | Inr base_url \<Rightarrow>
          (let url = urljoin ext base_url ''search'';
               search_title = [(''text'', title)]
           in (client_get ext (catalog w) url search_title,
               emit [Login, Get url search_title] w)))"

text \<open>
  Lines 140 to 154: the body of the loop over the single match. Both branches return,
  so only the first item is looked at.
\<close>

definition single_match :: "jval \<Rightarrow> string \<Rightarrow> string \<Rightarrow> py_error + jval" where
  "single_match dataset title output_filename =
     bind_err (py_getitem_key dataset ''fileDescriptors'') (\<lambda>fds.
     bind_err (py_getitem_idx fds 0) (\<lambda>fd.
     bind_err (py_getitem_key fd ''filename'') (\<lambda>incore_filename.
     bind_err (py_getitem_key dataset ''title'') (\<lambda>t.
       if t = JStr title \<and> incore_filename = JStr (output_filename @ ''.csv'')
       then py_getitem_key dataset ''id''
       else Inr JNull))))"

text \<open>\<^verbatim>\<open>matched_datasets[i]['dataset']['id']\<close>, lines 162 and 163.\<close>

definition dataset_id_at :: "response \<Rightarrow> int \<Rightarrow> py_error + jval" where
  "dataset_id_at matched_datasets i =
     bind_err (getitem matched_datasets i) (\<lambda>x.
     bind_err (py_getitem_key x ''dataset'') (\<lambda>d. py_getitem_key d ''id''))"

fun first_error :: "('e + 'a) list \<Rightarrow> 'e option" where
  "first_error [] = None"
| "first_error (Inl e # rs) = Some e"
| "first_error (Inr a # rs) = first_error rs"

text \<open>
  Lines 160 to 165: the ids are listed, one line is read from standard input
  (\<^verbatim>\<open>input\<close> raises \<^verbatim>\<open>EOFError\<close> when there is none), and the data set at the number
  entered is returned.
\<close>

definition multiple_matches ::
  "response \<Rightarrow> 'c world \<Rightarrow> (py_error + jval) \<times> 'c world" where
  "multiple_matches matched_datasets w =
     (case iter_count matched_datasets of
        Inl e \<Rightarrow> (Inl e, w)
      | Inr n \<Rightarrow>
          (case first_error (map (\<lambda>i. dataset_id_at matched_datasets (int i)) [0..<n]) of
             Some e \<Rightarrow> (Inl e, w)
           | None \<Rightarrow>
               (case console w of
                  [] \<Rightarrow> (Inl EOFError, w)
                | line # rest \<Rightarrow>
                    (bind_err (py_int_of_str line) (dataset_id_at matched_datasets),
                     w\<lparr>console := rest\<rparr>))))"

text \<open>\<^verbatim>\<open>return_dataservice_id\<close>, lines 132 to 165.\<close>

definition return_dataservice_id ::
  "'c externals \<Rightarrow> string \<Rightarrow> string \<Rightarrow> 'c world \<Rightarrow> (py_error + jval) \<times> 'c world" where
  "return_dataservice_id ext title output_filename w =
     (case check_file_on_incore ext title w of
        (Inl e, w1) \<Rightarrow> (Inl e, w1)
      | (Inr matched_datasets, w1) \<Rightarrow>
          (case bind_err (json matched_datasets) py_len of
             Inl e \<Rightarrow> (Inl e, w1)
           | Inr match_count \<Rightarrow>
               if match_count = 1 then
                 (case bind_err (json matched_datasets) py_iter of
                    Inl e \<Rightarrow> (Inl e, w1)
                  | Inr [] \<Rightarrow> (Inr JNull, w1)
                  | Inr (dataset # rest) \<Rightarrow> (single_match dataset title output_filename, w1))
               else if match_count = 0 then (Inr JNull, w1)
               else multiple_matches matched_datasets w1))"

section \<open>Generating and publishing the inventory\<close>

text \<open>
  The local variables of \<^verbatim>\<open>generate_hui_v2_for_incore\<close> that live across statements.
  \<^verbatim>\<open>dataset_id\<close> and \<^verbatim>\<open>outputfolders\<close> are unbound (\<open>None\<close>) until their first
  assignment; reading an unbound local raises \<^verbatim>\<open>UnboundLocalError\<close>.
\<close>

record locals =
  hui_incore_county_df :: "(string \<times> table) list"
  county_list :: string
  dataset_id :: "jval option"
  outputfolders_local :: "(string \<times> string) list option"

datatype outcome = Return jval | Continue locals

definition initial_locals :: locals where
  "initial_locals =
     \<lparr>hui_incore_county_df = [], county_list = [], dataset_id = None,
      outputfolders_local = None\<rparr>"

text \<open>
  \<^verbatim>\<open>d[k] = v\<close> on a dict: a key that is present keeps its place and gets the new value,
  a new key goes to the end.
\<close>

fun dict_set :: "('k \<times> 'v) list \<Rightarrow> 'k \<Rightarrow> 'v \<Rightarrow> ('k \<times> 'v) list" where
  "dict_set [] k v = [(k, v)]"
| "dict_set ((k', v') # d) k v =
     (if k' = k then (k', v) # d else (k', v') # dict_set d k v)"

definition title_of :: "community \<Rightarrow> string" where
  "title_of comm = ''Housing Unit Inventory v2.0.0 data for '' @ community_name comm"

definition output_filename_of :: "self \<Rightarrow> string \<Rightarrow> string" where
  "output_filename_of s community =
     ''hui_'' @ version_text s @ ''_'' @ community @ ''_'' @ basevintage s
       @ ''_rs'' @ str_int (seed s)"

definition run_context_of :: "self \<Rightarrow> county \<Rightarrow> run_context" where
  "run_context_of s cty =
     \<lparr>state_county = FIPS_Code cty, state_county_name = Name cty, run_seed = seed s,
      run_version = version s, run_version_text = version_text s,
      run_basevintage = basevintage s\<rparr>"

text \<open>
  Modelled from the spec: the class \<^verbatim>\<open>hui_workflow_functions\<close> (its methods
  \<^verbatim>\<open>run_hui_workflow\<close>, \<^verbatim>\<open>final_polish_hui\<close> and \<^verbatim>\<open>save_incore_version2\<close>, lines 200 to
  216) is not among the sources. The spec says of the county run context (FIPS code,
  name, seed, version tag, vintage year) that all outputs for the county are derived
  solely from it plus the two upstream data sources, with a deterministic seeded
  generator. So the county table is the value \<open>county_table\<close> gives for the run context,
  whatever the folders are.
\<close>

definition hui_workflow ::
  "'c externals \<Rightarrow> run_context \<Rightarrow> string \<Rightarrow> (string \<times> string) list \<Rightarrow> py_error + table" where
  "hui_workflow ext ctx folder folders = county_table ext ctx"

text \<open>
  Lines 190 to 216, the loop over the counties of a community. It touches neither the
  catalog nor standard input; it returns the calls it made.
\<close>

fun county_loop ::
  "self \<Rightarrow> 'c externals \<Rightarrow> (string \<times> county) list \<Rightarrow> locals
     \<Rightarrow> (py_error + locals) \<times> event list" where
  "county_loop s ext [] vars = (Inr vars, [])"
| "county_loop s ext (kc # rest) vars =
     (let cty = snd kc;
          ctx = run_context_of s cty;
          calls = [DirectoryDesign (Name cty) (outputfolder s), HuiWorkflow ctx]
      in case directory_design ext (Name cty) (outputfolder s) of
           Inl e \<Rightarrow> (Inl e, [DirectoryDesign (Name cty) (outputfolder s)])
         | Inr folders \<Rightarrow>
             (case hui_workflow ext ctx (outputfolder s) folders of
                Inl e \<Rightarrow> (Inl e, calls)
              | Inr t \<Rightarrow>
                  (case county_loop s ext rest
                          (vars\<lparr>county_list := county_list vars @ Name cty
                                   @ '': county FIPS Code '' @ FIPS_Code cty,
                                 outputfolders_local := Some folders,
                                 hui_incore_county_df :=
                                   dict_set (hui_incore_county_df vars) (FIPS_Code cty) t\<rparr>) of
                     (r, evs) \<Rightarrow> (r, calls @ evs))))"

text \<open>
  Lines 218 to 232: concatenate, remove the \<^verbatim>\<open>.0\<close>, write the table twice. The result
  is the table before and after the normalization and the path handed on to the upload.
\<close>

definition save_results ::
  "'c externals \<Rightarrow> string \<Rightarrow> locals \<Rightarrow> (py_error + table \<times> table \<times> string) \<times> event list" where
  "save_results ext output_filename vars =
     (case bind_err (pd_concat (map snd (hui_incore_county_df vars)))
             (\<lambda>df. bind_err (applymap remove_dot_zero df) (\<lambda>fixed. Inr (df, fixed))) of
        Inl e \<Rightarrow> (Inl e, [])
      | Inr (hui_incore_df, hui_incore_df_fixed) \<Rightarrow>
          (case outputfolders_local vars of
             None \<Rightarrow> (Inl UnboundLocalError, [])
           | Some folders \<Rightarrow>
               (case map_of folders ''top'' of
                  None \<Rightarrow> (Inl KeyError, [])
                | Some top_folder \<Rightarrow>
                    (let csv_filepath = top_folder @ ''/'' @ output_filename @ ''.csv''
                     in case list_index (sys_path ext) 0 of
                          Inl e \<Rightarrow> (Inl e, [])
                        | Inr path0 \<Rightarrow>
                            (let savefile = path0 @ ''/'' @ csv_filepath;
                                 common_directory = top_folder @ ''/../../'' @ output_filename;
                                 first = ToCsv savefile hui_incore_df_fixed;
                                 second = ToCsv (common_directory @ ''.csv'') hui_incore_df_fixed
                             in case to_csv ext savefile hui_incore_df_fixed of
                                  Some e \<Rightarrow> (Inl e, [first])
                                | None \<Rightarrow>
                                    (case to_csv ext (common_directory @ ''.csv'')
                                            hui_incore_df_fixed of
                                       Some e \<Rightarrow> (Inl e, [first, second])
                                     | None \<Rightarrow>
                                         (Inr (hui_incore_df, hui_incore_df_fixed, csv_filepath),
                                          [first, second])))))))"

text \<open>Lines 235 to 246: one figure for each of the three variables.\<close>

fun figures_loop ::
  "'c externals \<Rightarrow> table \<Rightarrow> string \<Rightarrow> (string \<times> string) list \<Rightarrow> string list \<Rightarrow> string list
     \<Rightarrow> (py_error + string list) \<times> event list" where
  "figures_loop ext df community folders [] figures_list = (Inr figures_list, [])"
| "figures_loop ext df community folders (by_var # rest) figures_list =
     (case income_distribution ext df by_var community folders of
        Inl e \<Rightarrow> (Inl e, [IncomeDistribution community by_var])
      | Inr income_by_var_figure \<Rightarrow>
          (case figures_loop ext df community folders rest
                  (figures_list @ [income_by_var_figure @ ''.png'']) of
             (r, evs) \<Rightarrow> (r, IncomeDistribution community by_var # evs)))"

text \<open>Lines 234 to 268: the figures and the PDF codebook.\<close>

definition explore_and_codebook ::
  "'c externals \<Rightarrow> string \<Rightarrow> string \<Rightarrow> table \<Rightarrow> table \<Rightarrow> locals
     \<Rightarrow> (py_error + unit) \<times> event list" where
  "explore_and_codebook ext community output_filename df fixed vars =
     (case outputfolders_local vars of
        None \<Rightarrow> (Inl UnboundLocalError, [])
      | Some folders \<Rightarrow>
          (case figures_loop ext df community folders [''race'', ''hispan'', ''family''] [] of
             (Inl e, evs) \<Rightarrow> (Inl e, evs)
           | (Inr figures_list, evs) \<Rightarrow>
               (case create_codebook ext fixed community output_filename figures_list of
                  Some e \<Rightarrow> (Inl e, evs @ [Codebook output_filename])
                | None \<Rightarrow> (Inr (), evs @ [Codebook output_filename]))))"

definition hui_description :: "string \<Rightarrow> string" where
  "hui_description counties_text =
     ''2010 Housing Unit Inventory v2.0.0 with required IN-CORE columns. ''
     @ ''Compatible with pyincore v1.4. ''
     @ ''Unit of observation is housing unit. ''
     @ ''Detailed characteristics include number of persons, race, ethnicity, ''
     @ ''vacancy type, group quarters type, and household income. ''
     @ ''For more details on this data file refer to ''
     @ ''Rosenheim, Nathanael (2021) '' @ [CHR 0x27] @ ''Detailed Household and ''
     @ ''Housing Unit Characteristics: Data and Replication Code.'' @ [CHR 0x27] @ '' ''
     @ ''DesignSafe-CI. https://doi.org/10.17603/ds2-jwf6-s535. ''
     @ ''For more details on the replication code, refer to ''
     @ ''Rosenheim, Nathanael. (2022). npr99/intersect-community-data. Zenodo. ''
     @ ''https://doi.org/10.5281/zenodo.6476122. ''
     @ ''File includes data for '' @ counties_text"

definition dataset_metadata :: "string \<Rightarrow> string \<Rightarrow> (string \<times> string) list" where
  "dataset_metadata title counties_text =
     [(''title'', title),
      (''description'', hui_description counties_text),
      (''dataType'', ''incore:housingUnitInventory''),
      (''format'', ''table'')]"

text \<open>
  Lines 270 to 304: create the data set and attach the file. The \<^verbatim>\<open>print\<close> of line 296
  concatenates the id to a string, which raises \<^verbatim>\<open>TypeError\<close> for an id that is not a
  string.
\<close>

definition upload ::
  "'c externals \<Rightarrow> string \<Rightarrow> string \<Rightarrow> locals \<Rightarrow> 'c world \<Rightarrow> (py_error + locals) \<times> 'c world" where
  "upload ext title csv_filepath vars w =
     (let metadata = dataset_metadata title (county_list vars)
      in case login ext of
           Inl e \<Rightarrow> (Inl e, emit [Login] w)
         | Inr base_url \<Rightarrow>
             (case create_dataset ext (catalog w) metadata of
                Inl e \<Rightarrow> (Inl e, emit [Login, CreateDataset metadata] w)
              | Inr (created_dataset, cat1) \<Rightarrow>
                  (let w1 = (emit [Login, CreateDataset metadata] w)\<lparr>catalog := cat1\<rparr>
                   in case py_getitem_key created_dataset ''id'' of
                        Inl e \<Rightarrow> (Inl e, w1)
                      | Inr new_id \<Rightarrow>
                          (case new_id of
                             JStr id_text \<Rightarrow>
                               (case add_files_to_dataset ext cat1 new_id [csv_filepath] of
                                  Inl e \<Rightarrow> (Inl e, emit [AddFiles new_id [csv_filepath]] w1)
                                | Inr cat2 \<Rightarrow>
                                    (Inr (vars\<lparr>dataset_id := Some new_id\<rparr>),
                                     (emit [AddFiles new_id [csv_filepath]] w1)
                                       \<lparr>catalog := cat2\<rparr>))
                           | _ \<Rightarrow> (Inl TypeError, w1)))))"

text \<open>Lines 189 to 304: what the loop body does once the check has returned \<^verbatim>\<open>None\<close>.\<close>

definition generate_and_upload ::
  "self \<Rightarrow> 'c externals \<Rightarrow> string \<Rightarrow> community \<Rightarrow> locals \<Rightarrow> 'c world
     \<Rightarrow> (py_error + locals) \<times> 'c world" where
  "generate_and_upload s ext community comm vars w =
     (let title = title_of comm;
          output_filename = output_filename_of s community
      in case county_loop s ext (counties comm) vars of
           (Inl e, evs) \<Rightarrow> (Inl e, emit evs w)
         | (Inr vars1, evs) \<Rightarrow>
             (case save_results ext output_filename vars1 of
                (Inl e, evs1) \<Rightarrow> (Inl e, emit (evs @ evs1) w)
              | (Inr (df, fixed, csv_filepath), evs1) \<Rightarrow>
                  (case explore_and_codebook ext community output_filename df fixed vars1 of
                     (Inl e, evs2) \<Rightarrow> (Inl e, emit (evs @ evs1 @ evs2) w)
                   | (Inr u, evs2) \<Rightarrow>
                       upload ext title csv_filepath vars1 (emit (evs @ evs1 @ evs2) w))))"

text \<open>Lines 173 to 304, the body of the loop over the communities.\<close>

definition community_body ::
  "self \<Rightarrow> 'c externals \<Rightarrow> string \<Rightarrow> community \<Rightarrow> locals \<Rightarrow> 'c world
     \<Rightarrow> (py_error + outcome) \<times> 'c world" where
  "community_body s ext community comm vars w =
     (case return_dataservice_id ext (title_of comm) (output_filename_of s community) w of
        (Inl e, w1) \<Rightarrow> (Inl e, w1)
      | (Inr found, w1) \<Rightarrow>
          if found \<noteq> JNull then (Inr (Return found), w1)
          else
            (case generate_and_upload s ext community comm
                    (vars\<lparr>hui_incore_county_df := [], county_list := [],
                           dataset_id := Some found\<rparr>) w1 of
               (Inl e, w2) \<Rightarrow> (Inl e, w2)
             | (Inr vars1, w2) \<Rightarrow> (Inr (Continue vars1), w2)))"

fun communities_loop ::
  "self \<Rightarrow> 'c externals \<Rightarrow> (string \<times> community) list \<Rightarrow> locals \<Rightarrow> 'c world
     \<Rightarrow> (py_error + outcome) \<times> 'c world" where
  "communities_loop s ext [] vars w = (Inr (Continue vars), w)"
| "communities_loop s ext (kc # rest) vars w =
     (case community_body s ext (fst kc) (snd kc) vars w of
        (Inl e, w1) \<Rightarrow> (Inl e, w1)
      | (Inr (Return found), w1) \<Rightarrow> (Inr (Return found), w1)
      | (Inr (Continue vars1), w1) \<Rightarrow> communities_loop s ext rest vars1 w1)"

text \<open>
  \<^verbatim>\<open>generate_hui_v2_for_incore\<close>, lines 167 to 306. The \<^verbatim>\<open>return dataset_id\<close> after the
  loop reads the local variable, which no statement has bound when the loop body never
  ran.
\<close>

definition generate_hui_v2_for_incore ::
  "self \<Rightarrow> 'c externals \<Rightarrow> 'c world \<Rightarrow> (py_error + jval) \<times> 'c world" where
  "generate_hui_v2_for_incore s ext w =
     (case communities_loop s ext (communities s) initial_locals w of
        (Inl e, w1) \<Rightarrow> (Inl e, w1)
      | (Inr (Return found), w1) \<Rightarrow> (Inr found, w1)
      | (Inr (Continue vars), w1) \<Rightarrow>
          (case dataset_id vars of
             None \<Rightarrow> (Inl UnboundLocalError, w1)
           | Some d \<Rightarrow> (Inr d, w1)))"

section \<open>What a run writes\<close>

text \<open>The tables handed to \<^verbatim>\<open>to_csv\<close> among the calls of a run, with their paths.\<close>

fun csv_calls :: "event list \<Rightarrow> (string \<times> table) list" where
  "csv_calls [] = []"
| "csv_calls (ToCsv path t # evs) = (path, t) # csv_calls evs"
| "csv_calls (ev # evs) = csv_calls evs"

text \<open>
  The writes of a community whose table is generated, computed from the object and the
  collaborators alone: the county loop started with no table collected, then lines 218
  to 232.
\<close>

definition community_csv ::
  "self \<Rightarrow> 'c externals \<Rightarrow> string \<times> community \<Rightarrow> (string \<times> table) list" where
  "community_csv s ext kc =
     (case county_loop s ext (counties (snd kc)) initial_locals of
        (Inl e, evs) \<Rightarrow> []
      | (Inr vars1, evs) \<Rightarrow>
          csv_calls (snd (save_results ext (output_filename_of s (fst kc)) vars1)))"

text \<open>
  For stating what the county loop collects: the assignments \<^verbatim>\<open>d[k] = v\<close> of a list of
  pairs made in order, the keys of a list in the order of their first occurrence, and
  the blocks of a concatenation, one for each county code in first-seen order, holding
  the table generated last for that code.
\<close>

definition collect :: "('k \<times> 'v) list \<Rightarrow> ('k \<times> 'v) list \<Rightarrow> ('k \<times> 'v) list" where
  "collect d kvs = foldl (\<lambda>d kv. dict_set d (fst kv) (snd kv)) d kvs"

definition first_seen :: "'a list \<Rightarrow> 'a list" where
  "first_seen xs = rev (remdups (rev xs))"

definition county_blocks :: "string list \<Rightarrow> table list \<Rightarrow> table list" where
  "county_blocks codes ts =
     map (\<lambda>k. case map_of (rev (zip codes ts)) k of None \<Rightarrow> [] | Some t \<Rightarrow> t)
       (first_seen codes)"

section \<open>A sample run\<close>

text \<open>
  Concrete collaborators for evaluating the definitions: a catalog that is the list of
  its data sets and answers a search with those of the title searched for, and
  communities of one county each. \<open>http_response\<close> is a response in the manner of the HTTP library: iterating
  gives chunks of the body, and subscripting raises \<^verbatim>\<open>TypeError\<close>. \<open>list_response\<close>
  is a response that can be subscripted, giving the data set under the key
  \<^verbatim>\<open>dataset\<close>.
\<close>

definition http_response :: "jval list \<Rightarrow> response" where
  "http_response ds =
     \<lparr>json = Inr (JList ds), iter_count = Inr 1, getitem = (\<lambda>i. Inl TypeError)\<rparr>"

definition list_response :: "jval list \<Rightarrow> response" where
  "list_response ds =
     \<lparr>json = Inr (JList ds), iter_count = Inr (length ds),
      getitem = (\<lambda>i. bind_err (list_index ds i) (\<lambda>d. Inr (JDict [(''dataset'', d)])))\<rparr>"

definition sample_table :: table where
  "sample_table =
     [[CStr ''B481677201001000H001'', CFloat False 4 0, CFloat False 452315 (- 1)],
      [CStr ''B481677201001000H002'', CFloat False 1 0, CNaN]]"

definition matching :: "(string \<times> string) list \<Rightarrow> jval list \<Rightarrow> jval list" where
  "matching params cat =
     (case params of
        [] \<Rightarrow> cat
      | p # ps \<Rightarrow> filter (\<lambda>d. py_getitem_key d ''title'' = Inr (JStr (snd p))) cat)"

definition sample_ext :: "(jval list \<Rightarrow> response) \<Rightarrow> jval list externals" where
  "sample_ext respond =
     \<lparr>login = Inr ''https://incore.ncsa.illinois.edu/data/api/datasets/'',
      urljoin = (\<lambda>base rel. base @ rel),
      client_get = (\<lambda>cat url params. Inr (respond (matching params cat))),
      directory_design = (\<lambda>county folder. Inr [(''top'', folder @ ''/'' @ county)]),
      county_table = (\<lambda>ctx. Inr sample_table),
      sys_path = [''/home/user''],
      to_csv = (\<lambda>path t. None),
      income_distribution = (\<lambda>df by_var community folders. Inr (''income_'' @ by_var)),
      create_codebook = (\<lambda>df community output_filename figures. None),
      create_dataset = (\<lambda>cat metadata. Inr (JDict [(''id'', JStr ''new1'')], cat)),
      add_files_to_dataset = (\<lambda>cat did files. Inr cat)\<rparr>"

definition absolute_paths_only :: "string \<Rightarrow> table \<Rightarrow> py_error option" where
  "absolute_paths_only path t =
     (if take 1 path = ''/'' then None else Some (ExternalError ''PermissionError''))"

definition sample_self :: self where
  "sample_self =
     \<lparr>communities =
        [(''Galveston'',
          \<lparr>community_name = ''Galveston'',
           counties = [(''1'', \<lparr>FIPS_Code = ''48167'', Name = ''Galveston County, TX''\<rparr>)]\<rparr>)],
      seed = 9876, version = ''2.0.0'', version_text = ''v2-0-0'', basevintage = ''2010'',
      outputfolder = ''OutputData'', outputfolders = [], savefiles = True\<rparr>"

definition sample_community :: "string \<Rightarrow> string \<Rightarrow> string \<times> community" where
  "sample_community key fips =
     (key, \<lparr>community_name = key,
            counties = [(''1'', \<lparr>FIPS_Code = fips, Name = key @ '' County''\<rparr>)]\<rparr>)"

definition sample_self3 :: self where
  "sample_self3 =
     sample_self\<lparr>communities :=
       [sample_community ''Joplin'' ''29097'', sample_community ''Galveston'' ''48167'',
        sample_community ''Seaside'' ''41007'']\<rparr>"

definition sample_counties :: "(string \<times> county) list" where
  "sample_counties =
     [(''1'', \<lparr>FIPS_Code = ''48167'', Name = ''Galveston''\<rparr>),
      (''2'', \<lparr>FIPS_Code = ''48201'', Name = ''Harris''\<rparr>),
      (''3'', \<lparr>FIPS_Code = ''48167'', Name = ''Galveston again''\<rparr>)]"

definition labelled_table :: "run_context \<Rightarrow> py_error + table" where
  "labelled_table ctx =
     Inr [[CStr (state_county_name ctx), CInt 1], [CStr (state_county_name ctx), CInt 2]]"

definition sample_dataset :: "string \<Rightarrow> jval" where
  "sample_dataset did =
     JDict [(''id'', JStr did),
            (''title'', JStr ''Housing Unit Inventory v2.0.0 data for Galveston''),
            (''fileDescriptors'',
               JList [JDict [(''filename'', JStr ''hui_v2-0-0_Galveston_2010_rs9876.csv'')]])]"

definition sample_world :: "jval list \<Rightarrow> string list \<Rightarrow> jval list world" where
  "sample_world cat lines = \<lparr>catalog = cat, console = lines, trace = []\<rparr>"


section \<open>Basic facts\<close>

lemma bind_err_simps [simp]:
  "bind_err (Inl e) f = Inl e"
  "bind_err (Inr a) f = f a"
  by (simp_all add: bind_err_def)

lemma bind_err_eq_Inr:
  "bind_err r f = Inr b \<longleftrightarrow> (\<exists>a. r = Inr a \<and> f a = Inr b)"
  by (cases r) simp_all

lemmas numeral_defs = str_int_def str_nat.simps digit_char_def

lemmas sample_defs =
  sample_self_def sample_ext_def sample_world_def sample_dataset_def sample_table_def
  http_response_def list_response_def matching_def sample_self3_def sample_community_def

lemmas check_defs =
  return_dataservice_id_def check_file_on_incore_def single_match_def multiple_matches_def
  dataset_id_at_def emit_def title_of_def output_filename_of_def list_index_def Let_def

lemmas int_of_str_defs =
  py_int_of_str_def skip_spaces_def is_space_def is_digit_def digit_val_def

subsection \<open>The catalog check reads the catalog and standard input only\<close>

lemma check_file_on_incore_frame:
  assumes "check_file_on_incore ext title w = (r, w1)"
  shows "catalog w1 = catalog w \<and> console w1 = console w
         \<and> trace w1 = trace w @ Login #
              (case login ext of
                 Inl e \<Rightarrow> []
               | Inr base_url \<Rightarrow> [Get (urljoin ext base_url ''search'') [(''text'', title)]])"
  using assms
  by (auto simp add: check_file_on_incore_def emit_def Let_def split: sum.splits)

lemma check_file_on_incore_found:
  assumes "login ext = Inr base_url"
    and "client_get ext (catalog w) (urljoin ext base_url ''search'') [(''text'', title)] = Inr matched"
  shows "check_file_on_incore ext title w
           = (Inr matched, emit [Login, Get (urljoin ext base_url ''search'') [(''text'', title)]] w)"
  using assms by (simp add: check_file_on_incore_def Let_def)

lemma return_dataservice_id_single:
  assumes "check_file_on_incore ext title w = (Inr matched, w1)"
    and "json matched = Inr (JList [dataset])"
  shows "return_dataservice_id ext title output_filename w
           = (single_match dataset title output_filename, w1)"
  using assms by (simp add: return_dataservice_id_def)

lemma return_dataservice_id_none:
  assumes "check_file_on_incore ext title w = (Inr matched, w1)"
    and "json matched = Inr (JList [])"
  shows "return_dataservice_id ext title output_filename w = (Inr JNull, w1)"
  using assms by (simp add: return_dataservice_id_def)

lemma return_dataservice_id_several:
  assumes "check_file_on_incore ext title w = (Inr matched, w1)"
    and "json matched = Inr j" and "py_len j = Inr n" and "1 < n"
  shows "return_dataservice_id ext title output_filename w = multiple_matches matched w1"
  using assms by (simp add: return_dataservice_id_def)

lemma single_match_found:
  assumes "py_getitem_key dataset ''fileDescriptors'' = Inr fds"
    and "py_getitem_idx fds 0 = Inr fd"
    and "py_getitem_key fd ''filename'' = Inr (JStr (output_filename @ ''.csv''))"
    and "py_getitem_key dataset ''title'' = Inr (JStr title)"
  shows "single_match dataset title output_filename = py_getitem_key dataset ''id''"
  using assms by (simp add: single_match_def)

lemma single_match_differs:
  assumes "py_getitem_key dataset ''fileDescriptors'' = Inr fds"
    and "py_getitem_idx fds 0 = Inr fd"
    and "py_getitem_key fd ''filename'' = Inr f"
    and "py_getitem_key dataset ''title'' = Inr t"
    and "t \<noteq> JStr title \<or> f \<noteq> JStr (output_filename @ ''.csv'')"
  shows "single_match dataset title output_filename = Inr JNull"
  using assms by (auto simp add: single_match_def)

lemma multiple_matches_returns:
  assumes "multiple_matches matched w = (Inr found, w1)"
  shows "\<exists>line rest k. console w = line # rest \<and> py_int_of_str line = Inr k
           \<and> dataset_id_at matched k = Inr found \<and> w1 = w\<lparr>console := rest\<rparr>"
  using assms
  by (auto simp add: multiple_matches_def bind_err_eq_Inr
        split: sum.splits option.splits list.splits)

lemma community_body_absent:
  assumes "return_dataservice_id ext (title_of comm) (output_filename_of s community) w
             = (Inr JNull, w1)"
  shows "community_body s ext community comm vars w =
           (case generate_and_upload s ext community comm
                    (vars\<lparr>hui_incore_county_df := [], county_list := [],
                           dataset_id := Some JNull\<rparr>) w1 of
               (Inl e, w2) \<Rightarrow> (Inl e, w2)
             | (Inr vars1, w2) \<Rightarrow> (Inr (Continue vars1), w2))"
  using assms by (simp add: community_body_def)

lemma community_body_found:
  assumes "return_dataservice_id ext (title_of comm) (output_filename_of s community) w
             = (Inr found, w1)"
    and "found \<noteq> JNull"
  shows "community_body s ext community comm vars w = (Inr (Return found), w1)"
  using assms by (simp add: community_body_def)

section \<open>The publish gate\<close>

text \<open>
  C1. When the search gives exactly one data set whose title is the title asked for and
  whose first file descriptor has the file name \<^verbatim>\<open>output_filename + '.csv'\<close>,
  \<^verbatim>\<open>return_dataservice_id\<close> returns the \<^verbatim>\<open>id\<close> of that data set. When the search gives no
  data set it returns \<^verbatim>\<open>None\<close>, and the loop body of the caller goes on to generate and
  upload the table of the community.
\<close>

theorem single_match_returns_id_no_match_generates:
  assumes "check_file_on_incore ext title w = (Inr matched, w1)"
  shows "(json matched = Inr (JList [dataset])
          \<and> py_getitem_key dataset ''fileDescriptors'' = Inr fds
          \<and> py_getitem_idx fds 0 = Inr fd
          \<and> py_getitem_key fd ''filename'' = Inr (JStr (output_filename @ ''.csv''))
          \<and> py_getitem_key dataset ''title'' = Inr (JStr title)
          \<and> py_getitem_key dataset ''id'' = Inr found
          \<longrightarrow> return_dataservice_id ext title output_filename w = (Inr found, w1))
       \<and> (json matched = Inr (JList [])
          \<longrightarrow> return_dataservice_id ext title output_filename w = (Inr JNull, w1)
            \<and> (title = title_of comm \<and> output_filename = output_filename_of s community
               \<longrightarrow> community_body s ext community comm vars w =
                     (case generate_and_upload s ext community comm
                              (vars\<lparr>hui_incore_county_df := [], county_list := [],
                                     dataset_id := Some JNull\<rparr>) w1 of
                        (Inl e, w2) \<Rightarrow> (Inl e, w2)
                      | (Inr vars1, w2) \<Rightarrow> (Inr (Continue vars1), w2))))"
proof (intro conjI impI)
  assume h: "json matched = Inr (JList [dataset])
          \<and> py_getitem_key dataset ''fileDescriptors'' = Inr fds
          \<and> py_getitem_idx fds 0 = Inr fd
          \<and> py_getitem_key fd ''filename'' = Inr (JStr (output_filename @ ''.csv''))
          \<and> py_getitem_key dataset ''title'' = Inr (JStr title)
          \<and> py_getitem_key dataset ''id'' = Inr found"
  then have "single_match dataset title output_filename = Inr found"
    using single_match_found [of dataset fds fd output_filename title] by simp
  with h assms show "return_dataservice_id ext title output_filename w = (Inr found, w1)"
    by (simp add: return_dataservice_id_single)
next
  assume "json matched = Inr (JList [])"
  with assms show none: "return_dataservice_id ext title output_filename w = (Inr JNull, w1)"
    by (rule return_dataservice_id_none)
  assume "title = title_of comm \<and> output_filename = output_filename_of s community"
  with none show "community_body s ext community comm vars w =
                     (case generate_and_upload s ext community comm
                              (vars\<lparr>hui_incore_county_df := [], county_list := [],
                                     dataset_id := Some JNull\<rparr>) w1 of
                        (Inl e, w2) \<Rightarrow> (Inl e, w2)
                      | (Inr vars1, w2) \<Rightarrow> (Inr (Continue vars1), w2))"
    by (simp add: community_body_absent)
qed

theorem single_match_returns_id_no_match_generates_witness:
  "fst (return_dataservice_id (sample_ext http_response)
          ''Housing Unit Inventory v2.0.0 data for Galveston''
          ''hui_v2-0-0_Galveston_2010_rs9876''
          (sample_world [sample_dataset ''ds1''] [])) = Inr (JStr ''ds1'')
   \<and> fst (return_dataservice_id (sample_ext http_response)
          ''Housing Unit Inventory v2.0.0 data for Galveston''
          ''hui_v2-0-0_Galveston_2010_rs9876''
          (sample_world [] [])) = Inr JNull
   \<and> fst (community_body sample_self (sample_ext http_response) ''Galveston''
          (snd (hd (communities sample_self))) initial_locals (sample_world [] []))
       = fst (case generate_and_upload sample_self (sample_ext http_response) ''Galveston''
                 (snd (hd (communities sample_self)))
                 (initial_locals\<lparr>hui_incore_county_df := [], county_list := [],
                                  dataset_id := Some JNull\<rparr>)
                 (emit [Login, Get ''https://incore.ncsa.illinois.edu/data/api/datasets/search''
                          [(''text'', ''Housing Unit Inventory v2.0.0 data for Galveston'')]]
                    (sample_world [] [])) of
               (Inl e, w2) \<Rightarrow> (Inl e, w2)
             | (Inr vars1, w2) \<Rightarrow> (Inr (Continue vars1), w2))"
proof -
  let ?t = "''Housing Unit Inventory v2.0.0 data for Galveston''"
  let ?f = "''hui_v2-0-0_Galveston_2010_rs9876''"
  let ?u = "''https://incore.ncsa.illinois.edu/data/api/datasets/search''"
  let ?ext = "sample_ext http_response"
  have one: "check_file_on_incore ?ext ?t (sample_world [sample_dataset ''ds1''] [])
      = (Inr (http_response [sample_dataset ''ds1'']),
         emit [Login, Get ?u [(''text'', ?t)]] (sample_world [sample_dataset ''ds1''] []))"
    by (simp add: check_file_on_incore_def sample_ext_def sample_world_def matching_def
          sample_dataset_def)
  have zero: "check_file_on_incore ?ext ?t (sample_world [] [])
      = (Inr (http_response []), emit [Login, Get ?u [(''text'', ?t)]] (sample_world [] []))"
    by (simp add: check_file_on_incore_def sample_ext_def sample_world_def matching_def
          sample_dataset_def)
  have t: "?t = title_of (snd (hd (communities sample_self)))"
    by (simp add: title_of_def sample_self_def)
  have f: "?f = output_filename_of sample_self ''Galveston''"
    by (simp add: output_filename_of_def sample_self_def numeral_defs)
  show ?thesis
    using single_match_returns_id_no_match_generates [OF one,
            of "sample_dataset ''ds1''"
               "JList [JDict [(''filename'', JStr ''hui_v2-0-0_Galveston_2010_rs9876.csv'')]]"
               "JDict [(''filename'', JStr ''hui_v2-0-0_Galveston_2010_rs9876.csv'')]"
               "?f" "JStr ''ds1''"]
          single_match_returns_id_no_match_generates [OF zero,
            of _ _ _ "?f" _ "snd (hd (communities sample_self))" sample_self "''Galveston''"
               initial_locals]
          t f
    by (simp add: http_response_def sample_dataset_def list_index_def)
qed


text \<open>
  C9. When the search gives exactly one data set, and its title is not the title asked
  for or the file name of its first file descriptor is not
  \<^verbatim>\<open>output_filename + '.csv'\<close>, \<^verbatim>\<open>return_dataservice_id\<close> returns \<^verbatim>\<open>None\<close>, and the loop
  body of the caller goes on to generate and upload the table, as it does when the
  catalog has no data set.
\<close>

theorem near_match_is_treated_as_absent:
  assumes "check_file_on_incore ext title w = (Inr matched, w1)"
    and "json matched = Inr (JList [dataset])"
    and "py_getitem_key dataset ''fileDescriptors'' = Inr fds"
    and "py_getitem_idx fds 0 = Inr fd"
    and "py_getitem_key fd ''filename'' = Inr incore_filename"
    and "py_getitem_key dataset ''title'' = Inr dataset_title"
    and "dataset_title \<noteq> JStr title \<or> incore_filename \<noteq> JStr (output_filename @ ''.csv'')"
  shows "return_dataservice_id ext title output_filename w = (Inr JNull, w1)
       \<and> (title = title_of comm \<and> output_filename = output_filename_of s community
          \<longrightarrow> community_body s ext community comm vars w =
                (case generate_and_upload s ext community comm
                         (vars\<lparr>hui_incore_county_df := [], county_list := [],
                                dataset_id := Some JNull\<rparr>) w1 of
                   (Inl e, w2) \<Rightarrow> (Inl e, w2)
                 | (Inr vars1, w2) \<Rightarrow> (Inr (Continue vars1), w2)))"
proof -
  have "single_match dataset title output_filename = Inr JNull"
    using assms(3-7) by (rule single_match_differs)
  with assms(1,2)
  have none: "return_dataservice_id ext title output_filename w = (Inr JNull, w1)"
    by (simp add: return_dataservice_id_single)
  then show ?thesis
    by (auto simp add: community_body_absent)
qed

theorem near_match_is_treated_as_absent_witness:
  "return_dataservice_id (sample_ext http_response)
      ''Housing Unit Inventory v2.0.0 data for Galveston''
      ''hui_v2-0-0_Galveston_2010_rs1234''
      (sample_world [sample_dataset ''ds1''] [])
    = (Inr JNull,
       emit [Login, Get ''https://incore.ncsa.illinois.edu/data/api/datasets/search''
               [(''text'', ''Housing Unit Inventory v2.0.0 data for Galveston'')]]
         (sample_world [sample_dataset ''ds1''] []))
   \<and> fst (community_body (sample_self\<lparr>seed := 1234\<rparr>) (sample_ext http_response) ''Galveston''
          (snd (hd (communities sample_self))) initial_locals
          (sample_world [sample_dataset ''ds1''] []))
     = Inr (Continue (initial_locals
          \<lparr>hui_incore_county_df := [(''48167'', sample_table)],
           county_list := ''Galveston County, TX: county FIPS Code 48167'',
           dataset_id := Some (JStr ''new1''),
           outputfolders_local := Some [(''top'', ''OutputData/Galveston County, TX'')]\<rparr>))"
proof -
  let ?t = "''Housing Unit Inventory v2.0.0 data for Galveston''"
  let ?f = "''hui_v2-0-0_Galveston_2010_rs1234''"
  let ?u = "''https://incore.ncsa.illinois.edu/data/api/datasets/search''"
  let ?ext = "sample_ext http_response"
  let ?w = "sample_world [sample_dataset ''ds1''] []"
  let ?s = "sample_self\<lparr>seed := 1234\<rparr>"
  have one: "check_file_on_incore ?ext ?t ?w
      = (Inr (http_response [sample_dataset ''ds1'']), emit [Login, Get ?u [(''text'', ?t)]] ?w)"
    by (simp add: check_file_on_incore_def sample_ext_def sample_world_def matching_def
          sample_dataset_def)
  have js: "json (http_response [sample_dataset ''ds1'']) = Inr (JList [sample_dataset ''ds1''])"
    by (simp add: http_response_def)
  have fds: "py_getitem_key (sample_dataset ''ds1'') ''fileDescriptors''
      = Inr (JList [JDict [(''filename'', JStr ''hui_v2-0-0_Galveston_2010_rs9876.csv'')]])"
    by (simp add: sample_dataset_def)
  have fd: "py_getitem_idx (JList [JDict [(''filename'', JStr ''hui_v2-0-0_Galveston_2010_rs9876.csv'')]]) 0
      = Inr (JDict [(''filename'', JStr ''hui_v2-0-0_Galveston_2010_rs9876.csv'')])"
    by (simp add: list_index_def)
  have fname: "py_getitem_key (JDict [(''filename'', JStr ''hui_v2-0-0_Galveston_2010_rs9876.csv'')])
      ''filename'' = Inr (JStr ''hui_v2-0-0_Galveston_2010_rs9876.csv'')"
    by simp
  have ti: "py_getitem_key (sample_dataset ''ds1'') ''title'' = Inr (JStr ?t)"
    by (simp add: sample_dataset_def)
  have differs: "JStr ?t \<noteq> JStr ?t
      \<or> JStr ''hui_v2-0-0_Galveston_2010_rs9876.csv'' \<noteq> JStr (?f @ ''.csv'')"
    by simp
  have t: "?t = title_of (snd (hd (communities sample_self)))"
    by (simp add: title_of_def sample_self_def)
  have f: "?f = output_filename_of ?s ''Galveston''"
    by (simp add: output_filename_of_def sample_self_def numeral_defs)
  let ?g = "generate_and_upload ?s ?ext ''Galveston'' (snd (hd (communities sample_self)))
       (initial_locals\<lparr>hui_incore_county_df := [], county_list := [], dataset_id := Some JNull\<rparr>)
       (emit [Login, Get ?u [(''text'', ?t)]] ?w)"
  have "fst ?g = Inr (initial_locals
          \<lparr>hui_incore_county_df := [(''48167'', sample_table)],
           county_list := ''Galveston County, TX: county FIPS Code 48167'',
           dataset_id := Some (JStr ''new1''),
           outputfolders_local := Some [(''top'', ''OutputData/Galveston County, TX'')]\<rparr>)"
    by (simp add: generate_and_upload_def sample_defs initial_locals_def hui_workflow_def
          run_context_of_def save_results_def pd_concat_def list_index_def
          explore_and_codebook_def upload_def dataset_metadata_def applymap_def
          infer_dtypes_def
          remove_dot_zero_def endswith_def py_float_str_def numeral_defs float_trunc_def
          title_of_def output_filename_of_def emit_def Let_def)
  then obtain w2 where gen: "?g = (Inr (initial_locals
          \<lparr>hui_incore_county_df := [(''48167'', sample_table)],
           county_list := ''Galveston County, TX: county FIPS Code 48167'',
           dataset_id := Some (JStr ''new1''),
           outputfolders_local := Some [(''top'', ''OutputData/Galveston County, TX'')]\<rparr>), w2)"
    by (cases ?g) auto
  show ?thesis
    using near_match_is_treated_as_absent [OF one js fds fd fname ti differs,
            of "snd (hd (communities sample_self))" "?s" "''Galveston''" initial_locals]
          t f gen
    by simp
qed


text \<open>
  C5. When the catalog holds a matching data set for the title and file name of a
  community, the check returns the id of that data set, and so does a second check made
  in the state the first one left; the two checks leave the catalog as it was and make
  no call but their two searches. With an id that is not \<^verbatim>\<open>None\<close> the loop body of
  \<^verbatim>\<open>generate_hui_v2_for_incore\<close> returns the id both times, without a call of the
  county workflow, a write or an upload.
\<close>

theorem publish_check_twice_same_id:
  assumes "login ext = Inr base_url"
    and "client_get ext (catalog w) (urljoin ext base_url ''search'') [(''text'', title_of comm)]
           = Inr matched"
    and "json matched = Inr (JList [dataset])"
    and "py_getitem_key dataset ''fileDescriptors'' = Inr fds"
    and "py_getitem_idx fds 0 = Inr fd"
    and "py_getitem_key fd ''filename''
           = Inr (JStr (output_filename_of s community @ ''.csv''))"
    and "py_getitem_key dataset ''title'' = Inr (JStr (title_of comm))"
    and "py_getitem_key dataset ''id'' = Inr found"
    and "search = [Login, Get (urljoin ext base_url ''search'') [(''text'', title_of comm)]]"
  shows "return_dataservice_id ext (title_of comm) (output_filename_of s community) w
           = (Inr found, emit search w)
       \<and> return_dataservice_id ext (title_of comm) (output_filename_of s community) (emit search w)
           = (Inr found, emit search (emit search w))
       \<and> catalog (emit search (emit search w)) = catalog w
       \<and> console (emit search (emit search w)) = console w
       \<and> trace (emit search (emit search w)) = trace w @ search @ search
       \<and> (found \<noteq> JNull \<longrightarrow>
            community_body s ext community comm vars w = (Inr (Return found), emit search w)
          \<and> community_body s ext community comm vars (emit search w)
               = (Inr (Return found), emit search (emit search w)))"
proof -
  let ?t = "title_of comm" and ?f = "output_filename_of s community"
  have found: "single_match dataset ?t ?f = Inr found"
    using assms(4-8) by (simp add: single_match_found)
  have first: "return_dataservice_id ext ?t ?f w = (Inr found, emit search w)"
    using check_file_on_incore_found [OF assms(1,2)] assms(3,9) found
    by (simp add: return_dataservice_id_single)
  have "client_get ext (catalog (emit search w)) (urljoin ext base_url ''search'')
          [(''text'', ?t)] = Inr matched"
    using assms(2) by (simp add: emit_def)
  from check_file_on_incore_found [OF assms(1) this] assms(3,9) found
  have second: "return_dataservice_id ext ?t ?f (emit search w)
                  = (Inr found, emit search (emit search w))"
    by (simp add: return_dataservice_id_single)
  from first second show ?thesis
    by (simp add: community_body_found emit_def)
qed

theorem publish_check_twice_same_id_witness:
  "community_body sample_self (sample_ext http_response) ''Galveston''
     (snd (hd (communities sample_self))) initial_locals
     (sample_world [sample_dataset ''ds1''] [])
   = (Inr (Return (JStr ''ds1'')),
      \<lparr>catalog = [sample_dataset ''ds1''], console = [],
       trace = [Login, Get ''https://incore.ncsa.illinois.edu/data/api/datasets/search''
                  [(''text'', ''Housing Unit Inventory v2.0.0 data for Galveston'')]]\<rparr>)
   \<and> community_body sample_self (sample_ext http_response) ''Galveston''
     (snd (hd (communities sample_self))) initial_locals
     \<lparr>catalog = [sample_dataset ''ds1''], console = [],
       trace = [Login, Get ''https://incore.ncsa.illinois.edu/data/api/datasets/search''
                  [(''text'', ''Housing Unit Inventory v2.0.0 data for Galveston'')]]\<rparr>
   = (Inr (Return (JStr ''ds1'')),
      \<lparr>catalog = [sample_dataset ''ds1''], console = [],
       trace = [Login, Get ''https://incore.ncsa.illinois.edu/data/api/datasets/search''
                  [(''text'', ''Housing Unit Inventory v2.0.0 data for Galveston'')],
                Login, Get ''https://incore.ncsa.illinois.edu/data/api/datasets/search''
                  [(''text'', ''Housing Unit Inventory v2.0.0 data for Galveston'')]]\<rparr>)"
proof -
  let ?comm = "snd (hd (communities sample_self))"
  let ?ext = "sample_ext http_response"
  let ?w = "sample_world [sample_dataset ''ds1''] []"
  let ?u = "''https://incore.ncsa.illinois.edu/data/api/datasets/search''"
  have t: "title_of ?comm = ''Housing Unit Inventory v2.0.0 data for Galveston''"
    by (simp add: title_of_def sample_self_def)
  have f: "output_filename_of sample_self ''Galveston'' = ''hui_v2-0-0_Galveston_2010_rs9876''"
    by (simp add: output_filename_of_def sample_self_def numeral_defs)
  have h1: "login ?ext = Inr ''https://incore.ncsa.illinois.edu/data/api/datasets/''"
    by (simp add: sample_ext_def)
  have h2: "client_get ?ext (catalog ?w)
              (urljoin ?ext ''https://incore.ncsa.illinois.edu/data/api/datasets/'' ''search'')
              [(''text'', title_of ?comm)] = Inr (http_response [sample_dataset ''ds1''])"
    by (simp add: t sample_ext_def sample_world_def matching_def sample_dataset_def)
  have h3: "json (http_response [sample_dataset ''ds1'']) = Inr (JList [sample_dataset ''ds1''])"
    by (simp add: http_response_def)
  have h4: "py_getitem_key (sample_dataset ''ds1'') ''fileDescriptors''
      = Inr (JList [JDict [(''filename'', JStr ''hui_v2-0-0_Galveston_2010_rs9876.csv'')]])"
    by (simp add: sample_dataset_def)
  have h5: "py_getitem_idx (JList [JDict [(''filename'', JStr ''hui_v2-0-0_Galveston_2010_rs9876.csv'')]]) 0
      = Inr (JDict [(''filename'', JStr ''hui_v2-0-0_Galveston_2010_rs9876.csv'')])"
    by (simp add: list_index_def)
  have h6: "py_getitem_key (JDict [(''filename'', JStr ''hui_v2-0-0_Galveston_2010_rs9876.csv'')])
      ''filename'' = Inr (JStr (output_filename_of sample_self ''Galveston'' @ ''.csv''))"
    by (simp add: f)
  have h7: "py_getitem_key (sample_dataset ''ds1'') ''title'' = Inr (JStr (title_of ?comm))"
    by (simp add: t sample_dataset_def)
  have h8: "py_getitem_key (sample_dataset ''ds1'') ''id'' = Inr (JStr ''ds1'')"
    by (simp add: sample_dataset_def)
  show ?thesis
    using publish_check_twice_same_id [OF h1 h2 h3 h4 h5 h6 h7 h8 refl, of initial_locals]
    by (simp add: t emit_def sample_world_def sample_ext_def)
qed

text \<open>
  C4. When the search gives more than one data set, \<^verbatim>\<open>return_dataservice_id\<close> picks none
  of them by itself: it either raises, or it has read a line from standard input, the
  line is an integer, and the id returned is the one found at that number. With no line
  to read it returns nothing.
\<close>

theorem several_matches_need_a_choice:
  assumes "check_file_on_incore ext title w = (Inr matched, w1)"
    and "json matched = Inr j" and "py_len j = Inr match_count" and "1 < match_count"
  shows "case return_dataservice_id ext title output_filename w of
           (Inl e, w2) \<Rightarrow> True
         | (Inr found, w2) \<Rightarrow>
             (\<exists>line rest k. console w = line # rest \<and> py_int_of_str line = Inr k
                \<and> dataset_id_at matched k = Inr found \<and> console w2 = rest)"
proof -
  have rds: "return_dataservice_id ext title output_filename w = multiple_matches matched w1"
    using assms by (rule return_dataservice_id_several)
  have con: "console w1 = console w"
    using check_file_on_incore_frame [OF assms(1)] by simp
  show ?thesis
  proof (cases "multiple_matches matched w1")
    case (Pair r w2)
    show ?thesis
    proof (cases r)
      case (Inl e)
      with Pair rds show ?thesis by simp
    next
      case (Inr found)
      with Pair multiple_matches_returns [of matched w1 found w2] con rds
      show ?thesis by auto
    qed
  qed
qed

theorem several_matches_need_a_choice_witness:
  "(\<exists>line rest k. console (sample_world [sample_dataset ''ds1'', sample_dataset ''ds2''] [''1''])
          = line # rest \<and> py_int_of_str line = Inr k
        \<and> dataset_id_at (list_response [sample_dataset ''ds1'', sample_dataset ''ds2'']) k
            = Inr (JStr ''ds2'') \<and> [] = rest)
   \<and> fst (return_dataservice_id (sample_ext list_response)
            ''Housing Unit Inventory v2.0.0 data for Galveston''
            ''hui_v2-0-0_Galveston_2010_rs9876''
            (sample_world [sample_dataset ''ds1'', sample_dataset ''ds2''] [''1'']))
       = Inr (JStr ''ds2'')"
proof -
  let ?t = "''Housing Unit Inventory v2.0.0 data for Galveston''"
  let ?f = "''hui_v2-0-0_Galveston_2010_rs9876''"
  let ?u = "''https://incore.ncsa.illinois.edu/data/api/datasets/search''"
  let ?ext = "sample_ext list_response"
  let ?ds = "[sample_dataset ''ds1'', sample_dataset ''ds2'']"
  let ?w = "sample_world ?ds [''1'']"
  have chk: "check_file_on_incore ?ext ?t ?w
      = (Inr (list_response ?ds), emit [Login, Get ?u [(''text'', ?t)]] ?w)"
    by (simp add: check_file_on_incore_def sample_ext_def sample_world_def matching_def
          sample_dataset_def)
  have js: "json (list_response ?ds) = Inr (JList ?ds)"
    by (simp add: list_response_def)
  have len: "py_len (JList ?ds) = Inr 2"
    by simp
  have rds: "return_dataservice_id ?ext ?t ?f ?w
      = (Inr (JStr ''ds2''), (emit [Login, Get ?u [(''text'', ?t)]] ?w)\<lparr>console := []\<rparr>)"
    using return_dataservice_id_several [OF chk js len, of ?f]
    by (simp add: multiple_matches_def list_response_def
          dataset_id_at_def list_index_def sample_dataset_def emit_def sample_world_def
          int_of_str_defs upt_rec)
  show ?thesis
    using several_matches_need_a_choice [OF chk js len, of ?f]
    by (simp add: rds)
qed

lemma several_matches_with_http_response:
  "fst (return_dataservice_id (sample_ext http_response)
          ''Housing Unit Inventory v2.0.0 data for Galveston''
          ''hui_v2-0-0_Galveston_2010_rs9876''
          (sample_world [sample_dataset ''ds1'', sample_dataset ''ds2''] [''1'']))
     = Inl TypeError"
  by (simp add: check_defs sample_defs upt_rec)

lemma several_matches_without_input:
  "fst (return_dataservice_id (sample_ext list_response)
          ''Housing Unit Inventory v2.0.0 data for Galveston''
          ''hui_v2-0-0_Galveston_2010_rs9876''
          (sample_world [sample_dataset ''ds1'', sample_dataset ''ds2''] []))
     = Inl EOFError"
  by (simp add: check_defs sample_defs upt_rec)


section \<open>The loop over the communities\<close>

lemma return_dataservice_id_frame:
  assumes "return_dataservice_id ext title output_filename w = (Inr found, w1)"
  shows "catalog w1 = catalog w
       \<and> (\<exists>base_url. login ext = Inr base_url
            \<and> trace w1 = trace w @ [Login, Get (urljoin ext base_url ''search'') [(''text'', title)]])"
proof (cases "check_file_on_incore ext title w")
  case (Pair r w0)
  from check_file_on_incore_frame [OF Pair]
  have fr: "catalog w0 = catalog w"
    "trace w0 = trace w @ Login #
       (case login ext of
          Inl e \<Rightarrow> []
        | Inr base_url \<Rightarrow> [Get (urljoin ext base_url ''search'') [(''text'', title)]])"
    by simp_all
  from Pair assms obtain matched where r: "r = Inr matched"
    by (cases r) (auto simp add: return_dataservice_id_def)
  with Pair obtain base_url where lg: "login ext = Inr base_url"
    by (cases "login ext") (auto simp add: check_file_on_incore_def)
  have "catalog w1 = catalog w0 \<and> trace w1 = trace w0"
    using assms Pair r
    by (auto simp add: return_dataservice_id_def multiple_matches_def
          split: sum.splits if_splits list.splits option.splits)
  with fr lg show ?thesis by simp
qed

lemma county_loop_communities_update:
  "county_loop (s\<lparr>communities := cs\<rparr>) ext xs vars = county_loop s ext xs vars"
  by (induction xs arbitrary: vars)
    (simp_all add: run_context_of_def Let_def split: sum.splits prod.splits)

lemma output_filename_of_communities_update:
  "output_filename_of (s\<lparr>communities := cs\<rparr>) community = output_filename_of s community"
  by (simp add: output_filename_of_def)

lemma community_body_communities_update:
  "community_body (s\<lparr>communities := cs\<rparr>) ext community comm vars w
     = community_body s ext community comm vars w"
  unfolding community_body_def generate_and_upload_def output_filename_of_communities_update
    county_loop_communities_update
  by (rule refl)

lemma communities_loop_append:
  "communities_loop s ext (pre @ post) vars w =
     (case communities_loop s ext pre vars w of
        (Inr (Continue vars1), w1) \<Rightarrow> communities_loop s ext post vars1 w1
      | (r, w1) \<Rightarrow> (r, w1))"
proof (induction pre arbitrary: vars w)
  case Nil
  then show ?case by simp
next
  case (Cons kc pre)
  show ?case
  proof (cases "community_body s ext (fst kc) (snd kc) vars w")
    case (Pair r w1)
    then show ?thesis
      using Cons.IH by (cases r; simp split: outcome.splits)
  qed
qed

text \<open>
  C8. When the communities before some community were generated and uploaded, and the
  check for that community returns an id that is not \<^verbatim>\<open>None\<close>,
  \<^verbatim>\<open>generate_hui_v2_for_incore\<close> returns that id in the state the check left: the result
  and the state are those of the same call on a mapping that ends with that community,
  and the only calls made after the earlier communities are the login and the search of
  that check.
\<close>

theorem found_dataset_ends_the_loop:
  assumes "communities s = pre @ kc # post"
    and "communities_loop s ext pre initial_locals w = (Inr (Continue vars1), w1)"
    and "return_dataservice_id ext (title_of (snd kc)) (output_filename_of s (fst kc)) w1
           = (Inr found, w2)"
    and "found \<noteq> JNull"
  shows "generate_hui_v2_for_incore s ext w = (Inr found, w2)
       \<and> generate_hui_v2_for_incore (s\<lparr>communities := pre @ [kc]\<rparr>) ext w = (Inr found, w2)
       \<and> catalog w2 = catalog w1
       \<and> (\<exists>url. trace w2 = trace w1 @ [Login, Get url [(''text'', title_of (snd kc))]])"
proof -
  have body: "community_body s ext (fst kc) (snd kc) vars1 w1 = (Inr (Return found), w2)"
    using assms(3,4) by (rule community_body_found)
  have same: "communities_loop (s\<lparr>communities := cs\<rparr>) ext xs vars0 w0
                = communities_loop s ext xs vars0 w0" for cs xs vars0 w0
    by (induction xs arbitrary: vars0 w0)
      (simp_all add: community_body_communities_update split: prod.splits sum.splits outcome.splits)
  have "communities_loop s ext (pre @ kc # post) initial_locals w = (Inr (Return found), w2)"
    using assms(2) body by (simp add: communities_loop_append)
  moreover have "communities_loop s ext (pre @ [kc]) initial_locals w = (Inr (Return found), w2)"
    using assms(2) body by (simp add: communities_loop_append)
  ultimately show ?thesis
    using assms(1) return_dataservice_id_frame [OF assms(3)]
    by (auto simp add: generate_hui_v2_for_incore_def same)
qed

lemmas run_defs =
  generate_hui_v2_for_incore_def community_body_def generate_and_upload_def hui_workflow_def
  run_context_of_def save_results_def pd_concat_def explore_and_codebook_def upload_def
  dataset_metadata_def applymap_def remove_dot_zero_def endswith_def py_float_str_def
  float_trunc_def initial_locals_def infer_dtypes_def

theorem found_dataset_ends_the_loop_witness:
  "fst (generate_hui_v2_for_incore sample_self3 (sample_ext http_response)
          (sample_world [sample_dataset ''ds1''] [])) = Inr (JStr ''ds1'')
   \<and> generate_hui_v2_for_incore sample_self3 (sample_ext http_response)
          (sample_world [sample_dataset ''ds1''] [])
     = generate_hui_v2_for_incore
          (sample_self3\<lparr>communities :=
             [sample_community ''Joplin'' ''29097''] @ [sample_community ''Galveston'' ''48167'']\<rparr>)
          (sample_ext http_response) (sample_world [sample_dataset ''ds1''] [])"
proof -
  let ?ext = "sample_ext http_response"
  let ?w = "sample_world [sample_dataset ''ds1''] []"
  let ?kc = "sample_community ''Galveston'' ''48167''"
  let ?pre = "[sample_community ''Joplin'' ''29097'']"
  let ?L = "communities_loop sample_self3 ?ext ?pre initial_locals ?w"
  let ?V = "\<lparr>hui_incore_county_df = [(''29097'', sample_table)],
             county_list = ''Joplin County: county FIPS Code 29097'',
             dataset_id = Some (JStr ''new1''),
             outputfolders_local = Some [(''top'', ''OutputData/Joplin County'')]\<rparr>"
  let ?b = "''https://incore.ncsa.illinois.edu/data/api/datasets/''"
  have h1: "communities sample_self3 = ?pre @ ?kc # [sample_community ''Seaside'' ''41007'']"
    by (simp add: sample_self3_def)
  have l1: "fst ?L = Inr (Continue ?V)"
    by (simp add: run_defs check_defs sample_defs numeral_defs)
  have l2: "catalog (snd ?L) = [sample_dataset ''ds1'']"
    by (simp add: run_defs check_defs sample_defs numeral_defs)
  have h2: "?L = (Inr (Continue ?V), snd ?L)"
    using l1 by (cases ?L) simp
  have t: "title_of (snd ?kc) = ''Housing Unit Inventory v2.0.0 data for Galveston''"
    by (simp add: title_of_def sample_community_def)
  have f: "output_filename_of sample_self3 (fst ?kc) = ''hui_v2-0-0_Galveston_2010_rs9876''"
    by (simp add: output_filename_of_def sample_self3_def sample_self_def sample_community_def
          numeral_defs)
  have lg: "login ?ext = Inr ?b"
    by (simp add: sample_ext_def)
  have cg: "client_get ?ext (catalog (snd ?L)) (urljoin ?ext ?b ''search'')
              [(''text'', title_of (snd ?kc))] = Inr (http_response [sample_dataset ''ds1''])"
  proof -
    have "client_get ?ext cat (urljoin ?ext ?b ''search'') [(''text'', title_of (snd ?kc))]
            = Inr (http_response [sample_dataset ''ds1''])"
      if "cat = [sample_dataset ''ds1'']" for cat
      using that by (simp add: t sample_ext_def matching_def sample_dataset_def)
    from this [OF l2] show ?thesis .
  qed
  have js: "json (http_response [sample_dataset ''ds1'']) = Inr (JList [sample_dataset ''ds1''])"
    by (simp add: http_response_def)
  have sm: "single_match (sample_dataset ''ds1'') (title_of (snd ?kc))
              (output_filename_of sample_self3 (fst ?kc)) = Inr (JStr ''ds1'')"
    by (simp add: t f single_match_def sample_dataset_def list_index_def)
  have h3: "return_dataservice_id ?ext (title_of (snd ?kc))
              (output_filename_of sample_self3 (fst ?kc)) (snd ?L)
            = (Inr (JStr ''ds1''),
               emit [Login, Get (urljoin ?ext ?b ''search'') [(''text'', title_of (snd ?kc))]]
                 (snd ?L))"
    using return_dataservice_id_single [OF check_file_on_incore_found [OF lg cg] js] sm
    by simp
  have h4: "JStr ''ds1'' \<noteq> JNull"
    by simp
  show ?thesis
    using found_dataset_ends_the_loop [OF h1 h2 h3 h4]
    by simp
qed

text \<open>
  C10. With an empty communities mapping the loop body never runs, the variable
  \<^verbatim>\<open>dataset_id\<close> read by the last line is unbound, and the call raises instead of
  returning an id; nothing is called on the way.
\<close>

theorem empty_communities_raise_unbound_local:
  "generate_hui_v2_for_incore (s\<lparr>communities := []\<rparr>) ext w = (Inl UnboundLocalError, w)"
  by (simp add: generate_hui_v2_for_incore_def initial_locals_def)


section \<open>The calls of a run\<close>

lemma csv_calls_append:
  "csv_calls (xs @ ys) = csv_calls xs @ csv_calls ys"
  by (induction xs rule: csv_calls.induct) simp_all

lemma county_loop_no_csv:
  "county_loop s ext cs vars = (r, evs) \<Longrightarrow> csv_calls evs = []"
proof (induction cs arbitrary: vars r evs)
  case Nil
  then show ?case by simp
next
  case (Cons kc cs)
  then show ?case
    by (fastforce simp add: Let_def split: sum.splits prod.splits)
qed

lemma figures_loop_no_csv:
  "figures_loop ext df community folders by_vars acc = (r, evs) \<Longrightarrow> csv_calls evs = []"
proof (induction by_vars arbitrary: acc r evs)
  case Nil
  then show ?case by simp
next
  case (Cons v vs)
  then show ?case
    by (fastforce split: sum.splits prod.splits)
qed

lemma explore_and_codebook_no_csv:
  assumes "explore_and_codebook ext community output_filename df fixed vars = (r, evs)"
  shows "csv_calls evs = []"
  using assms
  by (auto simp add: explore_and_codebook_def csv_calls_append
        split: option.splits prod.splits sum.splits dest: figures_loop_no_csv)

lemma upload_trace:
  assumes "upload ext title csv_filepath vars w = (r, w1)"
  shows "\<exists>evs. trace w1 = trace w @ evs \<and> csv_calls evs = []"
  using assms
  by (auto simp add: upload_def emit_def Let_def
        split: sum.splits prod.splits jval.splits)

lemma upload_locals:
  assumes "upload ext title csv_filepath vars w = (Inr vars1, w1)"
  shows "hui_incore_county_df vars1 = hui_incore_county_df vars
       \<and> outputfolders_local vars1 = outputfolders_local vars"
  using assms
  by (auto simp add: upload_def Let_def split: sum.splits prod.splits jval.splits)

lemma return_dataservice_id_trace:
  assumes "return_dataservice_id ext title output_filename w = (r, w1)"
  shows "\<exists>evs. trace w1 = trace w @ evs \<and> csv_calls evs = []"
proof (cases "check_file_on_incore ext title w")
  case (Pair r0 w0)
  from check_file_on_incore_frame [OF Pair]
  have "\<exists>evs. trace w0 = trace w @ evs \<and> csv_calls evs = []"
    by (cases "login ext") auto
  moreover have "trace w1 = trace w0"
    using assms Pair
    by (auto simp add: return_dataservice_id_def multiple_matches_def
          split: sum.splits if_splits list.splits option.splits)
  ultimately show ?thesis by simp
qed

text \<open>What \<^verbatim>\<open>save_results\<close> has done when it returns, and when it raises.\<close>

lemma save_results_done:
  assumes "save_results ext output_filename vars = (Inr (df, fixed, csv_filepath), evs)"
  shows "\<exists>folders top_folder path0.
           outputfolders_local vars = Some folders \<and> map_of folders ''top'' = Some top_folder
         \<and> list_index (sys_path ext) 0 = Inr path0
         \<and> pd_concat (map snd (hui_incore_county_df vars)) = Inr df
         \<and> applymap remove_dot_zero df = Inr fixed
         \<and> csv_filepath = top_folder @ ''/'' @ output_filename @ ''.csv''
         \<and> evs = [ToCsv (path0 @ ''/'' @ csv_filepath) fixed,
                  ToCsv (top_folder @ ''/../../'' @ output_filename @ ''.csv'') fixed]
         \<and> to_csv ext (path0 @ ''/'' @ csv_filepath) fixed = None
         \<and> to_csv ext (top_folder @ ''/../../'' @ output_filename @ ''.csv'') fixed = None"
  using assms
  by (auto simp add: save_results_def Let_def bind_err_eq_Inr
        split: sum.splits prod.splits option.splits)

lemma save_results_same:
  assumes "hui_incore_county_df vars' = hui_incore_county_df vars"
    and "outputfolders_local vars' = outputfolders_local vars"
  shows "save_results ext output_filename vars' = save_results ext output_filename vars"
  using assms
  by (simp add: save_results_def Let_def split: sum.splits prod.splits option.splits)


lemma generate_and_upload_done:
  assumes "generate_and_upload s ext community comm vars w = (Inr vars2, w1)"
  shows "\<exists>vars1 evs0 df fixed csv_filepath evs1 evs2.
           county_loop s ext (counties comm) vars = (Inr vars1, evs0)
         \<and> save_results ext (output_filename_of s community) vars1
             = (Inr (df, fixed, csv_filepath), evs1)
         \<and> csv_calls evs2 = []
         \<and> trace w1 = trace w @ evs0 @ evs1 @ evs2
         \<and> hui_incore_county_df vars2 = hui_incore_county_df vars1
         \<and> outputfolders_local vars2 = outputfolders_local vars1"
proof -
  let ?f = "output_filename_of s community"
  obtain r0 evs0 where cl: "county_loop s ext (counties comm) vars = (r0, evs0)"
    by (cases "county_loop s ext (counties comm) vars")
  with assms obtain vars1 where r0: "r0 = Inr vars1"
    by (cases r0) (auto simp add: generate_and_upload_def)
  obtain r1 evs1 where sr: "save_results ext ?f vars1 = (r1, evs1)"
    by (cases "save_results ext ?f vars1")
  with assms cl r0 obtain df fixed csv_filepath where r1: "r1 = Inr (df, fixed, csv_filepath)"
    by (cases r1) (auto simp add: generate_and_upload_def)
  obtain r2 evs2 where ec: "explore_and_codebook ext community ?f df fixed vars1 = (r2, evs2)"
    by (cases "explore_and_codebook ext community ?f df fixed vars1")
  with assms cl r0 sr r1 obtain u where r2: "r2 = Inr u"
    by (cases r2) (auto simp add: generate_and_upload_def)
  have up: "upload ext (title_of comm) csv_filepath vars1 (emit (evs0 @ evs1 @ evs2) w)
              = (Inr vars2, w1)"
    using assms cl r0 sr r1 ec r2 by (simp add: generate_and_upload_def)
  from upload_trace [OF up] obtain evs3
    where t3: "trace w1 = trace (emit (evs0 @ evs1 @ evs2) w) @ evs3" "csv_calls evs3 = []"
    by blast
  have "csv_calls (evs2 @ evs3) = []"
    using explore_and_codebook_no_csv [OF ec] t3(2) by (simp add: csv_calls_append)
  moreover have "trace w1 = trace w @ evs0 @ evs1 @ (evs2 @ evs3)"
    using t3(1) by (simp add: emit_def)
  ultimately show ?thesis
    using cl r0 sr r1 upload_locals [OF up] by blast
qed

lemma save_results_failed_write:
  assumes "save_results ext output_filename vars = (r, evs)"
    and "(path, t) \<in> set (csv_calls evs)" and "to_csv ext path t = Some e"
  shows "r = Inl e"
  using assms
  by (auto simp add: save_results_def Let_def
        split: sum.splits prod.splits option.splits)

lemma generate_and_upload_csv:
  assumes "generate_and_upload s ext community comm vars w = (r, w1)"
  shows "\<exists>evs. trace w1 = trace w @ evs \<and>
           (case county_loop s ext (counties comm) vars of
              (Inl e, evs0) \<Rightarrow> csv_calls evs = [] \<and> r = Inl e
            | (Inr vars1, evs0) \<Rightarrow>
                (case save_results ext (output_filename_of s community) vars1 of
                   (r1, evs1) \<Rightarrow>
                     csv_calls evs = csv_calls evs1 \<and> (\<forall>e. r1 = Inl e \<longrightarrow> r = Inl e)))"
proof -
  let ?f = "output_filename_of s community"
  obtain r0 evs0 where cl: "county_loop s ext (counties comm) vars = (r0, evs0)"
    by (cases "county_loop s ext (counties comm) vars")
  have no0: "csv_calls evs0 = []"
    using cl by (rule county_loop_no_csv)
  show ?thesis
  proof (cases r0)
    case (Inl e)
    with assms cl have "r = Inl e" "trace w1 = trace w @ evs0"
      by (auto simp add: generate_and_upload_def emit_def)
    with cl Inl no0 show ?thesis by auto
  next
    case (Inr vars1)
    obtain r1 evs1 where sr: "save_results ext ?f vars1 = (r1, evs1)"
      by (cases "save_results ext ?f vars1")
    show ?thesis
    proof (cases r1)
      case (Inl e)
      with assms cl Inr sr have "r = Inl e" "trace w1 = trace w @ (evs0 @ evs1)"
        by (auto simp add: generate_and_upload_def emit_def)
      moreover have "csv_calls (evs0 @ evs1) = csv_calls evs1"
        using no0 by (simp add: csv_calls_append)
      ultimately show ?thesis
        using cl Inr sr Inl by auto
    next
      case r1: (Inr res)
      obtain df fixed csv_filepath where res: "res = (df, fixed, csv_filepath)"
        by (cases res)
      obtain r2 evs2
        where ec: "explore_and_codebook ext community ?f df fixed vars1 = (r2, evs2)"
        by (cases "explore_and_codebook ext community ?f df fixed vars1")
      have no2: "csv_calls evs2 = []"
        using ec by (rule explore_and_codebook_no_csv)
      have "\<exists>evs3. trace w1 = trace w @ (evs0 @ evs1 @ evs2 @ evs3) \<and> csv_calls evs3 = []"
      proof (cases r2)
        case (Inl e)
        with assms cl Inr sr r1 res ec have "trace w1 = trace w @ (evs0 @ evs1 @ evs2 @ [])"
          by (auto simp add: generate_and_upload_def emit_def)
        then show ?thesis by (intro exI [of _ "[]"]) simp
      next
        case (Inr u)
        with assms cl \<open>r0 = Inr vars1\<close> sr r1 res ec
        have "upload ext (title_of comm) csv_filepath vars1 (emit (evs0 @ evs1 @ evs2) w)
                = (r, w1)"
          by (simp add: generate_and_upload_def)
        from upload_trace [OF this] show ?thesis
          by (auto simp add: emit_def)
      qed
      then obtain evs3
        where "trace w1 = trace w @ (evs0 @ evs1 @ evs2 @ evs3)" "csv_calls evs3 = []"
        by blast
      moreover from this no0 no2
      have "csv_calls (evs0 @ evs1 @ evs2 @ evs3) = csv_calls evs1"
        by (simp add: csv_calls_append)
      ultimately show ?thesis
        using cl Inr sr r1 by auto
    qed
  qed
qed

lemma community_body_cases:
  assumes "community_body s ext community comm vars w = (r, w1)"
    and "return_dataservice_id ext (title_of comm) (output_filename_of s community) w = (r0, w0)"
  shows "(r0 \<noteq> Inr JNull \<and> w1 = w0 \<and> (\<forall>v. r \<noteq> Inr (Continue v)))
       \<or> (r0 = Inr JNull
          \<and> (\<exists>r2. generate_and_upload s ext community comm
                     (vars\<lparr>hui_incore_county_df := [], county_list := [],
                            dataset_id := Some JNull\<rparr>) w0 = (r2, w1)
                 \<and> r = (case r2 of Inl e \<Rightarrow> Inl e | Inr v \<Rightarrow> Inr (Continue v))))"
proof (cases r0)
  case (Inl e)
  with assms show ?thesis by (auto simp add: community_body_def)
next
  case (Inr found)
  show ?thesis
  proof (cases "found = JNull")
    case True
    obtain r2 w2 where g: "generate_and_upload s ext community comm
                     (vars\<lparr>hui_incore_county_df := [], county_list := [],
                            dataset_id := Some JNull\<rparr>) w0 = (r2, w2)"
      by (cases "generate_and_upload s ext community comm
                     (vars\<lparr>hui_incore_county_df := [], county_list := [],
                            dataset_id := Some JNull\<rparr>) w0")
    with assms Inr True show ?thesis
      by (cases r2) (auto simp add: community_body_def)
  next
    case False
    with assms Inr show ?thesis by (auto simp add: community_body_def)
  qed
qed

lemma community_body_failed_write:
  assumes "community_body s ext community comm vars w = (r, w1)"
  shows "\<exists>evs. trace w1 = trace w @ evs
           \<and> (\<forall>path t e. (path, t) \<in> set (csv_calls evs) \<and> to_csv ext path t = Some e
                 \<longrightarrow> r = Inl e)"
proof -
  let ?t = "title_of comm" and ?f = "output_filename_of s community"
  let ?vars = "vars\<lparr>hui_incore_county_df := [], county_list := [], dataset_id := Some JNull\<rparr>"
  obtain r0 w0 where rds: "return_dataservice_id ext ?t ?f w = (r0, w0)"
    by (cases "return_dataservice_id ext ?t ?f w")
  from return_dataservice_id_trace [OF rds] obtain evs0
    where e0: "trace w0 = trace w @ evs0" "csv_calls evs0 = []"
    by blast
  from community_body_cases [OF assms rds]
  consider (stop) "w1 = w0"
    | (gen) r2 where "generate_and_upload s ext community comm ?vars w0 = (r2, w1)"
        "r = (case r2 of Inl e \<Rightarrow> Inl e | Inr v \<Rightarrow> Inr (Continue v))"
    by blast
  then show ?thesis
  proof cases
    case stop
    with e0 have "trace w1 = trace w @ evs0" "csv_calls evs0 = []" by simp_all
    then show ?thesis by (intro exI [of _ evs0]) simp
  next
    case gen
    have r: "r = Inl e" if "r2 = Inl e" for e
      using gen(2) that by simp
    from generate_and_upload_csv [OF gen(1)] obtain evs
      where tr: "trace w1 = trace w0 @ evs"
        and cs: "case county_loop s ext (counties comm) ?vars of
              (Inl e, evs0) \<Rightarrow> csv_calls evs = [] \<and> r2 = Inl e
            | (Inr vars1, evs0) \<Rightarrow>
                (case save_results ext ?f vars1 of
                   (r1, evs1) \<Rightarrow>
                     csv_calls evs = csv_calls evs1 \<and> (\<forall>e. r1 = Inl e \<longrightarrow> r2 = Inl e))"
      by (elim exE conjE) (rule that)
    have fail: "r = Inl e" if "(path, t) \<in> set (csv_calls evs)" "to_csv ext path t = Some e"
      for path t e
    proof (cases "county_loop s ext (counties comm) ?vars")
      case (Pair rc evc)
      show ?thesis
      proof (cases rc)
        case (Inl e')
        with Pair cs have "csv_calls evs = []" by simp
        with that(1) show ?thesis by simp
      next
        case (Inr vars1)
        obtain r1 evs1 where sr: "save_results ext ?f vars1 = (r1, evs1)"
          by (cases "save_results ext ?f vars1")
        with Pair Inr cs
        have c1: "csv_calls evs = csv_calls evs1" and c2: "\<forall>e. r1 = Inl e \<longrightarrow> r2 = Inl e"
          by simp_all
        from that(1) c1 have "(path, t) \<in> set (csv_calls evs1)" by simp
        from save_results_failed_write [OF sr this that(2)] have "r1 = Inl e" .
        with c2 have "r2 = Inl e" by simp
        then show ?thesis by (rule r)
      qed
    qed
    have tr1: "trace w1 = trace w @ (evs0 @ evs)"
      using tr e0(1) by simp
    have eq: "csv_calls (evs0 @ evs) = csv_calls evs"
      using e0(2) by (simp add: csv_calls_append)
    have "\<forall>path t e. (path, t) \<in> set (csv_calls (evs0 @ evs)) \<and> to_csv ext path t = Some e
            \<longrightarrow> r = Inl e"
    proof (intro allI impI)
      fix path t e
      assume a: "(path, t) \<in> set (csv_calls (evs0 @ evs)) \<and> to_csv ext path t = Some e"
      then have "(path, t) \<in> set (csv_calls evs)" using eq by simp
      moreover from a have "to_csv ext path t = Some e" by simp
      ultimately show "r = Inl e" by (rule fail)
    qed
    with tr1 show ?thesis by blast
  qed
qed

section \<open>Writing the table\<close>

lemma community_body_done:
  assumes "community_body s ext community comm vars w = (Inr (Continue vars1), w1)"
  shows "\<exists>evs df fixed top_folder path0.
           trace w1 = trace w @ evs
         \<and> pd_concat (map snd (hui_incore_county_df vars1)) = Inr df
         \<and> applymap remove_dot_zero df = Inr fixed
         \<and> csv_calls evs =
             [(path0 @ ''/'' @ top_folder @ ''/'' @ output_filename_of s community @ ''.csv'',
               fixed),
              (top_folder @ ''/../../'' @ output_filename_of s community @ ''.csv'', fixed)]
         \<and> to_csv ext
               (path0 @ ''/'' @ top_folder @ ''/'' @ output_filename_of s community @ ''.csv'')
               fixed = None
         \<and> to_csv ext (top_folder @ ''/../../'' @ output_filename_of s community @ ''.csv'')
               fixed = None"
proof -
  let ?t = "title_of comm" and ?f = "output_filename_of s community"
  obtain r0 w0 where rds: "return_dataservice_id ext ?t ?f w = (r0, w0)"
    by (cases "return_dataservice_id ext ?t ?f w")
  with assms have r0: "r0 = Inr JNull"
    by (cases r0) (auto simp add: community_body_def split: if_splits)
  let ?vars = "vars\<lparr>hui_incore_county_df := [], county_list := [], dataset_id := Some JNull\<rparr>"
  have gen: "generate_and_upload s ext community comm ?vars w0 = (Inr vars1, w1)"
    using assms rds r0
    by (auto simp add: community_body_def split: prod.splits sum.splits)
  from return_dataservice_id_trace [OF rds] obtain evs0
    where e0: "trace w0 = trace w @ evs0" "csv_calls evs0 = []"
    by blast
  from generate_and_upload_done [OF gen] obtain vars0 evs1 df fixed csv_filepath evs2 evs3
    where cl: "county_loop s ext (counties comm) ?vars = (Inr vars0, evs1)"
      and sr: "save_results ext ?f vars0 = (Inr (df, fixed, csv_filepath), evs2)"
      and e3: "csv_calls evs3 = []"
      and tr: "trace w1 = trace w0 @ evs1 @ evs2 @ evs3"
      and same: "hui_incore_county_df vars1 = hui_incore_county_df vars0"
    by blast
  from save_results_done [OF sr] obtain folders top_folder path0
    where "pd_concat (map snd (hui_incore_county_df vars0)) = Inr df"
      and "applymap remove_dot_zero df = Inr fixed"
      and "csv_filepath = top_folder @ ''/'' @ ?f @ ''.csv''"
      and "evs2 = [ToCsv (path0 @ ''/'' @ csv_filepath) fixed,
                   ToCsv (top_folder @ ''/../../'' @ ?f @ ''.csv'') fixed]"
      and "to_csv ext (path0 @ ''/'' @ csv_filepath) fixed = None"
      and "to_csv ext (top_folder @ ''/../../'' @ ?f @ ''.csv'') fixed = None"
    by blast
  moreover have "trace w1 = trace w @ (evs0 @ evs1 @ evs2 @ evs3)"
    using e0(1) tr by simp
  moreover have "csv_calls (evs0 @ evs1 @ evs2 @ evs3) = csv_calls evs2"
    using e0(2) e3 county_loop_no_csv [OF cl] by (simp add: csv_calls_append)
  ultimately show ?thesis
    using same by (intro exI [of _ "evs0 @ evs1 @ evs2 @ evs3"] exI [of _ df]
        exI [of _ fixed] exI [of _ top_folder] exI [of _ path0]) simp
qed


text \<open>
  C6. The calls the loop body makes for a community are appended to those made before.
  If one of its calls of \<^verbatim>\<open>to_csv\<close> raises, the body raises that error and does not
  return. When the body has generated and uploaded the table, its calls hold exactly two
  writes: the normalized concatenation of the county tables, written to
  \<^verbatim>\<open>sys.path[0]/top/output_filename.csv\<close> and to \<^verbatim>\<open>top/../../output_filename.csv\<close>, and
  both writes have succeeded.
\<close>

theorem completed_run_has_written_both_files:
  assumes "community_body s ext community comm vars w = (r, w1)"
  shows "\<exists>evs. trace w1 = trace w @ evs
         \<and> (\<forall>path t e. (path, t) \<in> set (csv_calls evs) \<and> to_csv ext path t = Some e
               \<longrightarrow> r = Inl e)
         \<and> (\<forall>vars1. r = Inr (Continue vars1) \<longrightarrow>
              (\<exists>df fixed top_folder path0.
                 pd_concat (map snd (hui_incore_county_df vars1)) = Inr df
               \<and> applymap remove_dot_zero df = Inr fixed
               \<and> csv_calls evs =
                   [(path0 @ ''/'' @ top_folder @ ''/'' @ output_filename_of s community @ ''.csv'',
                     fixed),
                    (top_folder @ ''/../../'' @ output_filename_of s community @ ''.csv'', fixed)]
               \<and> to_csv ext
                     (path0 @ ''/'' @ top_folder @ ''/'' @ output_filename_of s community @ ''.csv'')
                     fixed = None
               \<and> to_csv ext
                     (top_folder @ ''/../../'' @ output_filename_of s community @ ''.csv'')
                     fixed = None))"
proof -
  from community_body_failed_write [OF assms] obtain evs
    where tr: "trace w1 = trace w @ evs"
      and fatal: "\<forall>path t e. (path, t) \<in> set (csv_calls evs) \<and> to_csv ext path t = Some e
                    \<longrightarrow> r = Inl e"
    by (elim exE conjE) (rule that)
  have "\<exists>df fixed top_folder path0.
           pd_concat (map snd (hui_incore_county_df vars1)) = Inr df
         \<and> applymap remove_dot_zero df = Inr fixed
         \<and> csv_calls evs =
             [(path0 @ ''/'' @ top_folder @ ''/'' @ output_filename_of s community @ ''.csv'',
               fixed),
              (top_folder @ ''/../../'' @ output_filename_of s community @ ''.csv'', fixed)]
         \<and> to_csv ext
               (path0 @ ''/'' @ top_folder @ ''/'' @ output_filename_of s community @ ''.csv'')
               fixed = None
         \<and> to_csv ext (top_folder @ ''/../../'' @ output_filename_of s community @ ''.csv'')
               fixed = None"
    if "r = Inr (Continue vars1)" for vars1
  proof -
    from that assms
    have "community_body s ext community comm vars w = (Inr (Continue vars1), w1)"
      by simp
    from community_body_done [OF this] obtain evs' df fixed top_folder path0
      where tr': "trace w1 = trace w @ evs'"
        and rest: "pd_concat (map snd (hui_incore_county_df vars1)) = Inr df"
          "applymap remove_dot_zero df = Inr fixed"
          "csv_calls evs' =
             [(path0 @ ''/'' @ top_folder @ ''/'' @ output_filename_of s community @ ''.csv'',
               fixed),
              (top_folder @ ''/../../'' @ output_filename_of s community @ ''.csv'', fixed)]"
          "to_csv ext
               (path0 @ ''/'' @ top_folder @ ''/'' @ output_filename_of s community @ ''.csv'')
               fixed = None"
          "to_csv ext (top_folder @ ''/../../'' @ output_filename_of s community @ ''.csv'')
               fixed = None"
      by (elim exE conjE) (rule that)
    from tr tr' have "evs' = evs" by simp
    with rest show ?thesis
      by (intro exI [of _ df] exI [of _ fixed] exI [of _ top_folder] exI [of _ path0]) simp
  qed
  then have "\<forall>vars1. r = Inr (Continue vars1) \<longrightarrow>
              (\<exists>df fixed top_folder path0.
                 pd_concat (map snd (hui_incore_county_df vars1)) = Inr df
               \<and> applymap remove_dot_zero df = Inr fixed
               \<and> csv_calls evs =
                   [(path0 @ ''/'' @ top_folder @ ''/'' @ output_filename_of s community @ ''.csv'',
                     fixed),
                    (top_folder @ ''/../../'' @ output_filename_of s community @ ''.csv'', fixed)]
               \<and> to_csv ext
                     (path0 @ ''/'' @ top_folder @ ''/'' @ output_filename_of s community @ ''.csv'')
                     fixed = None
               \<and> to_csv ext
                     (top_folder @ ''/../../'' @ output_filename_of s community @ ''.csv'')
                     fixed = None)"
    by (intro allI impI)
  with tr fatal show ?thesis
    by (intro exI [of _ evs] conjI)
qed

lemmas loop_body_defs =
  community_body_def generate_and_upload_def hui_workflow_def run_context_of_def
  save_results_def pd_concat_def explore_and_codebook_def upload_def dataset_metadata_def
  applymap_def remove_dot_zero_def endswith_def py_float_str_def float_trunc_def
  initial_locals_def infer_dtypes_def

theorem completed_run_has_written_both_files_witness:
  "csv_calls (trace (snd (community_body sample_self (sample_ext http_response) ''Galveston''
       (snd (hd (communities sample_self))) initial_locals (sample_world [] []))))
     = [(''/home/user/OutputData/Galveston County, TX/hui_v2-0-0_Galveston_2010_rs9876.csv'',
         [[CStr ''B481677201001000H001'', CInt 4, CFloat False 452315 (- 1)],
          [CStr ''B481677201001000H002'', CInt 1, CNaN]]),
        (''OutputData/Galveston County, TX/../../hui_v2-0-0_Galveston_2010_rs9876.csv'',
         [[CStr ''B481677201001000H001'', CInt 4, CFloat False 452315 (- 1)],
          [CStr ''B481677201001000H002'', CInt 1, CNaN]])]
   \<and> fst (community_body sample_self
          ((sample_ext http_response)
             \<lparr>to_csv := absolute_paths_only\<rparr>)
          ''Galveston'' (snd (hd (communities sample_self))) initial_locals (sample_world [] []))
     = Inl (ExternalError ''PermissionError'')"
proof -
  let ?b = "community_body sample_self (sample_ext http_response) ''Galveston''
       (snd (hd (communities sample_self))) initial_locals (sample_world [] [])"
  let ?c = "community_body sample_self
          ((sample_ext http_response)
             \<lparr>to_csv := absolute_paths_only\<rparr>)
          ''Galveston'' (snd (hd (communities sample_self))) initial_locals (sample_world [] [])"
  have b: "?b = (fst ?b, snd ?b)" and c: "?c = (fst ?c, snd ?c)"
    by simp_all
  have tb: "trace (snd ?b) =
      [Login, Get ''https://incore.ncsa.illinois.edu/data/api/datasets/search''
                [(''text'', ''Housing Unit Inventory v2.0.0 data for Galveston'')],
       DirectoryDesign ''Galveston County, TX'' ''OutputData'',
       HuiWorkflow \<lparr>state_county = ''48167'', state_county_name = ''Galveston County, TX'',
         run_seed = 9876, run_version = ''2.0.0'', run_version_text = ''v2-0-0'',
         run_basevintage = ''2010''\<rparr>,
       ToCsv ''/home/user/OutputData/Galveston County, TX/hui_v2-0-0_Galveston_2010_rs9876.csv''
         [[CStr ''B481677201001000H001'', CInt 4, CFloat False 452315 (- 1)],
          [CStr ''B481677201001000H002'', CInt 1, CNaN]],
       ToCsv ''OutputData/Galveston County, TX/../../hui_v2-0-0_Galveston_2010_rs9876.csv''
         [[CStr ''B481677201001000H001'', CInt 4, CFloat False 452315 (- 1)],
          [CStr ''B481677201001000H002'', CInt 1, CNaN]],
       IncomeDistribution ''Galveston'' ''race'', IncomeDistribution ''Galveston'' ''hispan'',
       IncomeDistribution ''Galveston'' ''family'',
       Codebook ''hui_v2-0-0_Galveston_2010_rs9876'',
       Login,
       CreateDataset (dataset_metadata ''Housing Unit Inventory v2.0.0 data for Galveston''
         ''Galveston County, TX: county FIPS Code 48167''),
       AddFiles (JStr ''new1'')
         [''OutputData/Galveston County, TX/hui_v2-0-0_Galveston_2010_rs9876.csv'']]"
    by (simp add: loop_body_defs check_defs sample_defs numeral_defs)
  have rc: "fst ?c = Inl (ExternalError ''PermissionError'')"
    by (simp add: loop_body_defs check_defs sample_defs numeral_defs absolute_paths_only_def)
  show ?thesis
    using completed_run_has_written_both_files [OF b] completed_run_has_written_both_files [OF c]
    by (simp add: tb rc)
qed


section \<open>The county loop\<close>

lemma county_loop_locals:
  assumes "hui_incore_county_df vars' = hui_incore_county_df vars"
  shows "case county_loop s ext cs vars of
           (Inl e, evs) \<Rightarrow> county_loop s ext cs vars' = (Inl e, evs)
         | (Inr v, evs) \<Rightarrow>
             (\<exists>v'. county_loop s ext cs vars' = (Inr v', evs)
                \<and> hui_incore_county_df v' = hui_incore_county_df v
                \<and> (cs \<noteq> [] \<or> outputfolders_local vars' = outputfolders_local vars
                     \<longrightarrow> outputfolders_local v' = outputfolders_local v))"
  using assms
proof (induction cs arbitrary: vars vars')
  case Nil
  then show ?case by simp
next
  case (Cons kc cs)
  let ?cty = "snd kc"
  show ?case
  proof (cases "directory_design ext (Name ?cty) (outputfolder s)")
    case (Inl e)
    then show ?thesis by (simp add: Let_def)
  next
    case (Inr folders)
    show ?thesis
    proof (cases "hui_workflow ext (run_context_of s ?cty) (outputfolder s) folders")
      case (Inl e)
      with Inr show ?thesis by (simp add: Let_def)
    next
      case t: (Inr t)
      let ?upd = "\<lambda>x. x\<lparr>county_list := county_list x @ Name ?cty
                                   @ '': county FIPS Code '' @ FIPS_Code ?cty,
                          outputfolders_local := Some folders,
                          hui_incore_county_df :=
                            dict_set (hui_incore_county_df x) (FIPS_Code ?cty) t\<rparr>"
      have eq: "hui_incore_county_df (?upd vars') = hui_incore_county_df (?upd vars)"
        using Cons.prems by simp
      have of: "outputfolders_local (?upd vars') = outputfolders_local (?upd vars)"
        by simp
      obtain r evs where l: "county_loop s ext cs (?upd vars) = (r, evs)"
        by (cases "county_loop s ext cs (?upd vars)")
      show ?thesis
      proof (cases r)
        case (Inl e)
        with Cons.IH [OF eq] l have "county_loop s ext cs (?upd vars') = (Inl e, evs)"
          by simp
        with Inr t l Inl show ?thesis by (simp add: Let_def)
      next
        case v: (Inr v)
        with Cons.IH [OF eq] l of obtain v'
          where "county_loop s ext cs (?upd vars') = (Inr v', evs)"
            "hui_incore_county_df v' = hui_incore_county_df v"
            "outputfolders_local v' = outputfolders_local v"
          by auto
        with Inr t l v show ?thesis by (simp add: Let_def)
      qed
    qed
  qed
qed

lemma county_loop_Nil_df:
  "county_loop s ext [] vars = (Inr v, evs) \<Longrightarrow> hui_incore_county_df v = hui_incore_county_df vars"
  by simp

lemma save_results_no_table:
  "hui_incore_county_df vars = [] \<Longrightarrow> save_results ext output_filename vars = (Inl ValueError, [])"
  by (simp add: save_results_def pd_concat_def)

lemma community_csv_eq:
  assumes "hui_incore_county_df vars = []"
  shows "(case county_loop s ext (counties comm) vars of
            (Inl e, evs) \<Rightarrow> []
          | (Inr v1, evs) \<Rightarrow> csv_calls (snd (save_results ext (output_filename_of s community) v1)))
         = community_csv s ext (community, comm)"
proof -
  let ?f = "output_filename_of s community"
  have eq: "hui_incore_county_df initial_locals = hui_incore_county_df vars"
    using assms by (simp add: initial_locals_def)
  obtain r evs where l: "county_loop s ext (counties comm) vars = (r, evs)"
    by (cases "county_loop s ext (counties comm) vars")
  show ?thesis
  proof (cases r)
    case (Inl e)
    with county_loop_locals [OF eq, where s = s and ext = ext and cs = "counties comm"] l
    have "county_loop s ext (counties comm) initial_locals = (Inl e, evs)"
      by simp
    with l Inl show ?thesis by (simp add: community_csv_def)
  next
    case (Inr v)
    with county_loop_locals [OF eq, where s = s and ext = ext and cs = "counties comm"] l obtain v'
      where l': "county_loop s ext (counties comm) initial_locals = (Inr v', evs)"
        and df: "hui_incore_county_df v' = hui_incore_county_df v"
        and of: "counties comm \<noteq> [] \<Longrightarrow> outputfolders_local v' = outputfolders_local v"
      by auto
    have "save_results ext ?f v' = save_results ext ?f v"
    proof (cases "counties comm = []")
      case True
      with l Inr assms have "hui_incore_county_df v = []" by simp
      with df have "hui_incore_county_df v' = []" by simp
      with \<open>hui_incore_county_df v = []\<close> show ?thesis
        by (simp only: save_results_no_table)
    next
      case False
      with of have "outputfolders_local v' = outputfolders_local v" by simp
      with df show ?thesis by (rule save_results_same)
    qed
    with l Inr l' show ?thesis by (simp add: community_csv_def)
  qed
qed

lemma community_body_csv:
  assumes "community_body s ext community comm vars w = (r, w1)"
  shows "\<exists>evs. trace w1 = trace w @ evs
           \<and> (csv_calls evs = [] \<and> (\<forall>v. r \<noteq> Inr (Continue v))
              \<or> csv_calls evs = community_csv s ext (community, comm))"
proof -
  let ?t = "title_of comm" and ?f = "output_filename_of s community"
  let ?vars = "vars\<lparr>hui_incore_county_df := [], county_list := [], dataset_id := Some JNull\<rparr>"
  obtain r0 w0 where rds: "return_dataservice_id ext ?t ?f w = (r0, w0)"
    by (cases "return_dataservice_id ext ?t ?f w")
  from return_dataservice_id_trace [OF rds] obtain evs0
    where e0: "trace w0 = trace w @ evs0" "csv_calls evs0 = []"
    by blast
  from community_body_cases [OF assms rds]
  consider (stop) "w1 = w0" "\<forall>v. r \<noteq> Inr (Continue v)"
    | (gen) r2 where "generate_and_upload s ext community comm ?vars w0 = (r2, w1)"
        "r = (case r2 of Inl e \<Rightarrow> Inl e | Inr v \<Rightarrow> Inr (Continue v))"
    by blast
  then show ?thesis
  proof cases
    case stop
    with e0 show ?thesis by (intro exI [of _ evs0]) simp
  next
    case gen
    from generate_and_upload_csv [OF gen(1)] obtain evs
      where tr: "trace w1 = trace w0 @ evs"
        and cs: "case county_loop s ext (counties comm) ?vars of
              (Inl e, evs0) \<Rightarrow> csv_calls evs = [] \<and> r2 = Inl e
            | (Inr vars1, evs0) \<Rightarrow>
                (case save_results ext ?f vars1 of
                   (r1, evs1) \<Rightarrow>
                     csv_calls evs = csv_calls evs1 \<and> (\<forall>e. r1 = Inl e \<longrightarrow> r2 = Inl e))"
      by (elim exE conjE) (rule that)
    have tr1: "trace w1 = trace w @ (evs0 @ evs)"
      using tr e0(1) by simp
    have eq: "csv_calls (evs0 @ evs) = csv_calls evs"
      using e0(2) by (simp add: csv_calls_append)
    have "csv_calls evs = [] \<and> (\<forall>v. r \<noteq> Inr (Continue v))
        \<or> csv_calls evs = community_csv s ext (community, comm)"
    proof (cases "county_loop s ext (counties comm) ?vars")
      case (Pair rc evc)
      show ?thesis
      proof (cases rc)
        case (Inl e)
        with Pair cs have "csv_calls evs = []" "r2 = Inl e" by simp_all
        with gen(2) show ?thesis by simp
      next
        case (Inr vars1)
        obtain r1 evs1 where sr: "save_results ext ?f vars1 = (r1, evs1)"
          by (cases "save_results ext ?f vars1")
        with Pair Inr cs have "csv_calls evs = csv_calls evs1" by simp
        moreover have "csv_calls evs1 = community_csv s ext (community, comm)"
          using community_csv_eq [where vars = ?vars and s = s and ext = ext and comm = comm
              and community = community] Pair Inr sr
          by simp
        ultimately show ?thesis by simp
      qed
    qed
    with tr1 eq show ?thesis by (intro exI [of _ "evs0 @ evs"]) simp
  qed
qed

lemma communities_loop_csv:
  "communities_loop s ext cs vars w = (r, w1) \<Longrightarrow>
     \<exists>evs. trace w1 = trace w @ evs
        \<and> prefix (csv_calls evs) (concat (map (community_csv s ext) cs))"
proof (induction cs arbitrary: vars w)
  case Nil
  then show ?case by simp
next
  case (Cons kc cs)
  obtain rb wb where body: "community_body s ext (fst kc) (snd kc) vars w = (rb, wb)"
    by (cases "community_body s ext (fst kc) (snd kc) vars w")
  from community_body_csv [OF body] obtain evs
    where tr: "trace wb = trace w @ evs"
      and cs: "csv_calls evs = [] \<and> (\<forall>v. rb \<noteq> Inr (Continue v))
              \<or> csv_calls evs = community_csv s ext kc"
    by auto
  show ?case
  proof (cases "\<exists>v. rb = Inr (Continue v)")
    case True
    then obtain v where rb: "rb = Inr (Continue v)" by blast
    with Cons.prems body have "communities_loop s ext cs v wb = (r, w1)"
      by simp
    from Cons.IH [OF this] obtain evs'
      where tr': "trace w1 = trace wb @ evs'"
        and p: "prefix (csv_calls evs') (concat (map (community_csv s ext) cs))"
      by blast
    from rb cs have "csv_calls evs = community_csv s ext kc" by simp
    with p have "prefix (csv_calls (evs @ evs')) (concat (map (community_csv s ext) (kc # cs)))"
      by (simp add: csv_calls_append)
    moreover have "trace w1 = trace w @ (evs @ evs')"
      using tr tr' by simp
    ultimately show ?thesis by blast
  next
    case False
    with Cons.prems body have "w1 = wb"
      by (cases rb) (auto split: outcome.splits)
    moreover from cs
    have "prefix (csv_calls evs) (concat (map (community_csv s ext) (kc # cs)))"
      by auto
    ultimately show ?thesis using tr by blast
  qed
qed


section \<open>Two runs\<close>

lemma generate_hui_v2_for_incore_csv:
  assumes "generate_hui_v2_for_incore s ext w = (r, w1)"
  shows "\<exists>evs. trace w1 = trace w @ evs
           \<and> prefix (csv_calls evs) (concat (map (community_csv s ext) (communities s)))"
proof -
  obtain r0 w0
    where l: "communities_loop s ext (communities s) initial_locals w = (r0, w0)"
    by (cases "communities_loop s ext (communities s) initial_locals w")
  with assms have "w1 = w0"
    by (auto simp add: generate_hui_v2_for_incore_def
          split: sum.splits outcome.splits option.splits)
  with communities_loop_csv [OF l] show ?thesis by simp
qed

text \<open>
  C7. Two calls of \<^verbatim>\<open>generate_hui_v2_for_incore\<close> on the same object, with the same
  collaborators (the same seed and the same input behind the county workflow), started
  in two states that may differ in the catalog, in standard input and in the calls made
  before, hand the same tables to \<^verbatim>\<open>to_csv\<close> under the same paths, in the same order:
  the writes of each call are an initial part of the writes computed from the object and
  the collaborators alone, so the writes of one call are an initial part of the writes
  of the other, and the two are equal when they are equally many.
\<close>

theorem two_runs_write_the_same_tables:
  assumes "generate_hui_v2_for_incore s ext w = (r, w1)"
    and "generate_hui_v2_for_incore s ext v = (q, v1)"
  shows "\<exists>evs evs'. trace w1 = trace w @ evs \<and> trace v1 = trace v @ evs'
           \<and> prefix (csv_calls evs) (concat (map (community_csv s ext) (communities s)))
           \<and> prefix (csv_calls evs') (concat (map (community_csv s ext) (communities s)))
           \<and> (prefix (csv_calls evs) (csv_calls evs') \<or> prefix (csv_calls evs') (csv_calls evs))
           \<and> (length (csv_calls evs) = length (csv_calls evs')
                \<longrightarrow> csv_calls evs = csv_calls evs')"
proof -
  let ?all = "concat (map (community_csv s ext) (communities s))"
  from generate_hui_v2_for_incore_csv [OF assms(1)] obtain evs
    where a: "trace w1 = trace w @ evs" "prefix (csv_calls evs) ?all"
    by blast
  from generate_hui_v2_for_incore_csv [OF assms(2)] obtain evs'
    where b: "trace v1 = trace v @ evs'" "prefix (csv_calls evs') ?all"
    by blast
  from a(2) b(2)
  have c: "prefix (csv_calls evs) (csv_calls evs') \<or> prefix (csv_calls evs') (csv_calls evs)"
    by (rule prefix_same_cases)
  have "csv_calls evs = csv_calls evs'" if "length (csv_calls evs) = length (csv_calls evs')"
    using c that by (auto simp add: prefix_def)
  with a b c show ?thesis by blast
qed

theorem two_runs_write_the_same_tables_witness:
  "csv_calls (trace (snd (generate_hui_v2_for_incore sample_self (sample_ext http_response)
       (sample_world [] []))))
   = csv_calls (tl (trace (snd (generate_hui_v2_for_incore sample_self
       (sample_ext http_response)
       \<lparr>catalog = [JDict [(''title'', JStr ''Joplin tornado'')]], console = [''7''],
        trace = [Login]\<rparr>))))
   \<and> length (csv_calls (trace (snd (generate_hui_v2_for_incore sample_self
       (sample_ext http_response) (sample_world [] []))))) = 2"
proof -
  let ?w = "sample_world [] [] :: jval list world"
  let ?v = "\<lparr>catalog = [JDict [(''title'', JStr ''Joplin tornado'')]], console = [''7''],
        trace = [Login]\<rparr> :: jval list world"
  let ?g = "generate_hui_v2_for_incore sample_self (sample_ext http_response) ?w"
  let ?h = "generate_hui_v2_for_incore sample_self (sample_ext http_response) ?v"
  let ?tab = "[[CStr ''B481677201001000H001'', CInt 4, CFloat False 452315 (- 1)],
          [CStr ''B481677201001000H002'', CInt 1, CNaN]]"
  let ?csv = "[(''/home/user/OutputData/Galveston County, TX/hui_v2-0-0_Galveston_2010_rs9876.csv'',
         ?tab),
        (''OutputData/Galveston County, TX/../../hui_v2-0-0_Galveston_2010_rs9876.csv'', ?tab)]"
  have g: "?g = (fst ?g, snd ?g)" and h: "?h = (fst ?h, snd ?h)"
    by simp_all
  have cg: "csv_calls (trace (snd ?g)) = ?csv"
    by (simp add: run_defs check_defs sample_defs numeral_defs)
  have ch: "csv_calls (tl (trace (snd ?h))) = ?csv"
    by (simp add: run_defs check_defs sample_defs numeral_defs)
  show ?thesis
    using two_runs_write_the_same_tables [OF g h]
    by (simp add: cg ch)
qed


section \<open>The concatenated table\<close>

lemma dict_set_new:
  "k \<notin> fst ` set d \<Longrightarrow> dict_set d k v = d @ [(k, v)]"
  by (induction d) auto

lemma dict_set_keys:
  "map fst (dict_set d k v) = (if k \<in> fst ` set d then map fst d else map fst d @ [k])"
  by (induction d) force+

lemma dict_set_map_of:
  "map_of (dict_set d k v) = (map_of d)(k \<mapsto> v)"
  by (induction d) (auto simp add: fun_eq_iff)

lemma collect_Cons:
  "collect d (kv # kvs) = collect (dict_set d (fst kv) (snd kv)) kvs"
  by (simp add: collect_def)

lemma collect_snoc:
  "collect d (kvs @ [kv]) = dict_set (collect d kvs) (fst kv) (snd kv)"
  by (simp add: collect_def)

lemma first_seen_snoc:
  "first_seen (xs @ [x]) = (if x \<in> set xs then first_seen xs else first_seen xs @ [x])"
  by (simp add: first_seen_def)

lemma set_first_seen:
  "set (first_seen xs) = set xs"
  by (simp add: first_seen_def)

lemma distinct_first_seen:
  "distinct (first_seen xs)"
  by (simp add: first_seen_def)

lemma first_seen_distinct:
  "distinct xs \<Longrightarrow> first_seen xs = xs"
  by (simp add: first_seen_def distinct_remdups_id)

lemma collect_keys:
  "map fst (collect [] kvs) = first_seen (map fst kvs)"
proof (induction kvs rule: rev_induct)
  case Nil
  then show ?case by (simp add: collect_def first_seen_def)
next
  case (snoc kv kvs)
  have "fst ` set (collect [] kvs) = set (map fst (collect [] kvs))"
    by simp
  also have "\<dots> = fst ` set kvs"
    by (simp add: snoc.IH set_first_seen)
  finally show ?case
    by (simp add: collect_snoc dict_set_keys first_seen_snoc snoc.IH)
qed

lemma collect_map_of:
  "map_of (collect [] kvs) = map_of (rev kvs)"
proof (induction kvs rule: rev_induct)
  case Nil
  then show ?case by (simp add: collect_def)
next
  case (snoc kv kvs)
  then show ?case
    by (cases kv) (simp add: collect_snoc dict_set_map_of)
qed

lemma collect_distinct:
  "distinct (map fst kvs) \<Longrightarrow> collect [] kvs = kvs"
proof (induction kvs rule: rev_induct)
  case Nil
  then show ?case by (simp add: collect_def)
next
  case (snoc kv kvs)
  then have "collect [] kvs = kvs" and "fst kv \<notin> fst ` set kvs"
    by simp_all
  then show ?case
    by (simp add: collect_snoc dict_set_new)
qed

lemma values_by_key:
  "distinct (map fst d) \<Longrightarrow>
     map snd d = map (\<lambda>k. case map_of d k of None \<Rightarrow> [] | Some t \<Rightarrow> t) (map fst d)"
proof (induction d)
  case Nil
  then show ?case by simp
next
  case (Cons kv d)
  then have "map (\<lambda>k. case map_of (kv # d) k of None \<Rightarrow> [] | Some t \<Rightarrow> t) (map fst d)
           = map (\<lambda>k. case map_of d k of None \<Rightarrow> [] | Some t \<Rightarrow> t) (map fst d)"
    by (cases kv) (auto intro!: map_cong)
  with Cons show ?case by (cases kv) simp
qed

lemma collect_blocks:
  assumes "length codes = length ts"
  shows "map snd (collect [] (zip codes ts)) = county_blocks codes ts"
proof -
  let ?d = "collect [] (zip codes ts)"
  have keys: "map fst ?d = first_seen codes"
    using assms by (simp add: collect_keys)
  then have "distinct (map fst ?d)"
    by (simp add: distinct_first_seen)
  from values_by_key [OF this] keys show ?thesis
    by (simp add: county_blocks_def collect_map_of)
qed

lemma county_loop_tables:
  "county_loop s ext cs vars = (Inr v, evs) \<Longrightarrow>
     \<exists>ts. map (\<lambda>kc. county_table ext (run_context_of s (snd kc))) cs = map Inr ts
        \<and> hui_incore_county_df v
            = collect (hui_incore_county_df vars) (zip (map (\<lambda>kc. FIPS_Code (snd kc)) cs) ts)"
proof (induction cs arbitrary: vars evs)
  case Nil
  then show ?case by (simp add: collect_def)
next
  case (Cons kc cs)
  let ?cty = "snd kc"
  from Cons.prems obtain folders
    where dd: "directory_design ext (Name ?cty) (outputfolder s) = Inr folders"
    by (cases "directory_design ext (Name ?cty) (outputfolder s)") (auto simp add: Let_def)
  from Cons.prems dd obtain t
    where t: "county_table ext (run_context_of s ?cty) = Inr t"
    by (cases "county_table ext (run_context_of s ?cty)")
      (auto simp add: Let_def hui_workflow_def)
  let ?vars = "vars\<lparr>county_list := county_list vars @ Name ?cty
                                   @ '': county FIPS Code '' @ FIPS_Code ?cty,
                     outputfolders_local := Some folders,
                     hui_incore_county_df :=
                       dict_set (hui_incore_county_df vars) (FIPS_Code ?cty) t\<rparr>"
  from Cons.prems dd t obtain evs' where "county_loop s ext cs ?vars = (Inr v, evs')"
    by (auto simp add: Let_def hui_workflow_def split: prod.splits)
  from Cons.IH [OF this] obtain ts
    where "map (\<lambda>kc. county_table ext (run_context_of s (snd kc))) cs = map Inr ts"
      and "hui_incore_county_df v
            = collect (hui_incore_county_df ?vars) (zip (map (\<lambda>kc. FIPS_Code (snd kc)) cs) ts)"
    by blast
  with t show ?case
    by (intro exI [of _ "t # ts"]) (simp add: collect_Cons)
qed

subsection \<open>Storing the columns in their dtypes\<close>

lemma astype_row_length [simp]:
  "length (astype_row ds cs) = length cs"
  by (induction ds cs rule: astype_row.induct) simp_all

lemma astype_row_nth:
  "j < length cs \<Longrightarrow>
     astype_row ds cs ! j
       = (if j < length ds \<and> ds ! j = Float64 then as_float (cs ! j) else cs ! j)"
proof (induction ds cs arbitrary: j rule: astype_row.induct)
  case (1 d ds c cs)
  then show ?case by (cases j) simp_all
qed simp_all

lemma as_float_idem [simp]:
  "as_float (as_float c) = as_float c"
  by (cases c) (simp_all split: prod.splits)

lemma as_float_of_float:
  "cell_dtype c \<noteq> Int64 \<Longrightarrow> as_float c = c"
  by (cases c) simp_all

lemma astype_row_values:
  "map as_float (astype_row ds cs) = map as_float cs"
  by (induction ds cs rule: astype_row.induct) simp_all

lemma infer_dtypes_length [simp]:
  "length (infer_dtypes t) = length t"
  by (simp add: infer_dtypes_def)

lemma infer_dtypes_row:
  "i < length t \<Longrightarrow> infer_dtypes t ! i = astype_row (column_dtypes t) (t ! i)"
  by (simp add: infer_dtypes_def)

lemma infer_dtypes_values:
  "map (map as_float) (infer_dtypes t) = map (map as_float) t"
  by (simp add: infer_dtypes_def astype_row_values)

text \<open>
  C3. When the county loop has run over a non-empty county list, starting with no table
  collected, every county has a table, and the concatenated table is made of one block
  for each county code, the blocks in the order in which the codes first occur in the
  county list, each block the rows of the table generated for that code (the last one,
  when a code occurs twice) in the order the workflow gave them, every column stored in
  the common dtype of its cells. When no code occurs twice these are the county tables
  one after the other in county-list order. Storing a column in its dtype moves no row
  and changes no value: with every int read as the float of its value, the concatenated
  table is the blocks as the workflow gave them. Nothing but the county list and the
  county tables enters.
\<close>

theorem counties_are_blocks_in_list_order:
  assumes "county_loop s ext cs vars = (Inr v, evs)"
    and "hui_incore_county_df vars = []" and "cs \<noteq> []"
  shows "\<exists>ts df. map (\<lambda>kc. county_table ext (run_context_of s (snd kc))) cs = map Inr ts
           \<and> pd_concat (map snd (hui_incore_county_df v)) = Inr df
           \<and> df = infer_dtypes (concat (county_blocks (map (\<lambda>kc. FIPS_Code (snd kc)) cs) ts))
           \<and> map (map as_float) df
               = map (map as_float) (concat (county_blocks (map (\<lambda>kc. FIPS_Code (snd kc)) cs) ts))
           \<and> (distinct (map (\<lambda>kc. FIPS_Code (snd kc)) cs)
                \<longrightarrow> df = infer_dtypes (concat ts)
                  \<and> map (map as_float) df = map (map as_float) (concat ts))"
proof -
  let ?codes = "map (\<lambda>kc. FIPS_Code (snd kc)) cs"
  from county_loop_tables [OF assms(1)] assms(2) obtain ts
    where ts: "map (\<lambda>kc. county_table ext (run_context_of s (snd kc))) cs = map Inr ts"
      and df: "hui_incore_county_df v = collect [] (zip ?codes ts)"
    by auto
  from ts have "length (map (\<lambda>kc. county_table ext (run_context_of s (snd kc))) cs)
                  = length (map Inr ts :: (py_error + table) list)"
    by simp
  then have len: "length ?codes = length ts"
    by simp
  let ?df = "infer_dtypes (concat (county_blocks ?codes ts))"
  have blocks: "map snd (hui_incore_county_df v) = county_blocks ?codes ts"
    using df collect_blocks [OF len] by simp
  have "county_blocks ?codes ts \<noteq> []"
    using assms(3) by (simp add: county_blocks_def first_seen_def)
  with blocks
  have one: "pd_concat (map snd (hui_incore_county_df v)) = Inr ?df"
    by (simp add: pd_concat_def)
  have vals: "map (map as_float) ?df = map (map as_float) (concat (county_blocks ?codes ts))"
    by (rule infer_dtypes_values)
  have two: "?df = infer_dtypes (concat ts)
               \<and> map (map as_float) ?df = map (map as_float) (concat ts)"
    if "distinct ?codes"
  proof -
    from that len have "collect [] (zip ?codes ts) = zip ?codes ts"
      by (intro collect_distinct) simp
    with df len have "map snd (hui_incore_county_df v) = ts"
      by simp
    with blocks have "county_blocks ?codes ts = ts"
      by simp
    then show ?thesis
      by (simp add: infer_dtypes_values)
  qed
  from ts one vals two show ?thesis
    by (intro exI [of _ ts] exI [of _ ?df]) (simp add: infer_dtypes_values)
qed

theorem counties_are_blocks_in_list_order_witness:
  "(case fst (county_loop sample_self
               ((sample_ext http_response)\<lparr>county_table := labelled_table\<rparr>)
               (take 2 sample_counties) initial_locals) of
      Inl e \<Rightarrow> False
    | Inr v \<Rightarrow>
        pd_concat (map snd (hui_incore_county_df v))
          = Inr [[CStr ''Galveston'', CInt 1], [CStr ''Galveston'', CInt 2],
                 [CStr ''Harris'', CInt 1], [CStr ''Harris'', CInt 2]])
   \<and> (case fst (county_loop sample_self
               ((sample_ext http_response)\<lparr>county_table := labelled_table\<rparr>)
               sample_counties initial_locals) of
      Inl e \<Rightarrow> False
    | Inr v \<Rightarrow>
        pd_concat (map snd (hui_incore_county_df v))
          = Inr [[CStr ''Galveston again'', CInt 1], [CStr ''Galveston again'', CInt 2],
                 [CStr ''Harris'', CInt 1], [CStr ''Harris'', CInt 2]])"
proof -
  let ?ext = "(sample_ext http_response)\<lparr>county_table := labelled_table\<rparr>"
  let ?two = "county_loop sample_self ?ext (take 2 sample_counties) initial_locals"
  let ?three = "county_loop sample_self ?ext sample_counties initial_locals"
  have ev2: "fst ?two =
      Inr \<lparr>hui_incore_county_df =
             [(''48167'', [[CStr ''Galveston'', CInt 1], [CStr ''Galveston'', CInt 2]]),
              (''48201'', [[CStr ''Harris'', CInt 1], [CStr ''Harris'', CInt 2]])],
           county_list = ''Galveston: county FIPS Code 48167Harris: county FIPS Code 48201'',
           dataset_id = None,
           outputfolders_local = Some [(''top'', ''OutputData/Harris'')]\<rparr>"
    by (simp add: sample_defs sample_counties_def labelled_table_def initial_locals_def
          hui_workflow_def run_context_of_def Let_def)
  have ev3: "fst ?three =
      Inr \<lparr>hui_incore_county_df =
             [(''48167'', [[CStr ''Galveston again'', CInt 1], [CStr ''Galveston again'', CInt 2]]),
              (''48201'', [[CStr ''Harris'', CInt 1], [CStr ''Harris'', CInt 2]])],
           county_list = ''Galveston: county FIPS Code 48167Harris: county FIPS Code 48201''
             @ ''Galveston again: county FIPS Code 48167'',
           dataset_id = None,
           outputfolders_local = Some [(''top'', ''OutputData/Galveston again'')]\<rparr>"
    by (simp add: sample_defs sample_counties_def labelled_table_def initial_locals_def
          hui_workflow_def run_context_of_def Let_def)
  have l2: "?two = (fst ?two, snd ?two)" and l3: "?three = (fst ?three, snd ?three)"
    by simp_all
  have e: "hui_incore_county_df initial_locals = []"
    by (simp add: initial_locals_def)
  have n2: "take 2 sample_counties \<noteq> []" and n3: "sample_counties \<noteq> []"
    by (simp_all add: sample_counties_def)
  show ?thesis
    using counties_are_blocks_in_list_order [OF l2 [unfolded ev2] e n2]
          counties_are_blocks_in_list_order [OF l3 [unfolded ev3] e n3]
    by (simp add: ev2 ev3 pd_concat_def infer_dtypes_def)
qed


section \<open>Printing numbers\<close>

lemma below_ten:
  "d < 10 \<Longrightarrow> d \<in> {0, 1, 2, 3, 4, 5, 6, 7, 8, 9 :: nat}"
  by auto

lemma digit_char_not_dot:
  "d < 10 \<Longrightarrow> digit_char d \<noteq> CHR ''.''"
  by (drule below_ten) (auto simp add: digit_char_def)


lemma str_nat_nonempty:
  "str_nat n \<noteq> []"
  by (subst str_nat.simps) simp


lemma str_nat_no_dot:
  "CHR ''.'' \<notin> set (str_nat n)"
proof (induction n rule: str_nat.induct)
  case (1 n)
  show ?case
  proof (cases "n < 10")
    case True
    then show ?thesis
      using digit_char_not_dot [of n] by (subst str_nat.simps) auto
  next
    case False
    with 1 have "CHR ''.'' \<notin> set (str_nat (n div 10))" by simp
    moreover have "digit_char (n mod 10) \<noteq> CHR ''.''"
      by (rule digit_char_not_dot) simp
    ultimately show ?thesis
      using False by (subst str_nat.simps) auto
  qed
qed

lemma length_str_nat:
  "0 < k \<Longrightarrow> length (str_nat n) \<le> k \<longleftrightarrow> n < 10 ^ k"
proof (induction n arbitrary: k rule: str_nat.induct)
  case (1 n)
  show ?case
  proof (cases "n < 10")
    case True
    have "(10::nat) ^ 1 \<le> 10 ^ k"
      using 1(2) by (intro power_increasing) simp_all
    with True have "n < 10 ^ k" by simp
    moreover have "length (str_nat n) = 1"
      using True by (subst str_nat.simps) simp
    ultimately show ?thesis using 1(2) by simp
  next
    case False
    have len: "length (str_nat n) = Suc (length (str_nat (n div 10)))"
      using False by (subst str_nat.simps) simp
    show ?thesis
    proof (cases "k = 1")
      case True
      with False len show ?thesis by (simp add: str_nat_nonempty)
    next
      case k: False
      with 1(2) obtain k' where k': "k = Suc k'" "0 < k'"
        by (cases k) auto
      from 1(1) [OF False k'(2)]
      have "length (str_nat (n div 10)) \<le> k' \<longleftrightarrow> n div 10 < 10 ^ k'" .
      moreover have "n div 10 < 10 ^ k' \<longleftrightarrow> n < 10 ^ Suc k'"
        by (simp add: less_mult_imp_div_less div_less_iff_less_mult mult.commute)
      ultimately show ?thesis
        using len k'(1) by simp
    qed
  qed
qed

lemma endswith_dot_zero_iff:
  "endswith s ''.0'' \<longleftrightarrow> (\<exists>p. s = p @ ''.0'')"
proof
  assume "endswith s ''.0''"
  then have "drop (length s - length ''.0'') s = ''.0''"
    by (simp only: endswith_def)
  then have "s = take (length s - length ''.0'') s @ ''.0''"
    by (metis append_take_drop_id)
  then show "\<exists>p. s = p @ ''.0''" ..
next
  assume "\<exists>p. s = p @ ''.0''"
  then show "endswith s ''.0''"
    by (auto simp add: endswith_def)
qed


lemma not_endswith_no_dot:
  "CHR ''.'' \<notin> set s \<Longrightarrow> \<not> endswith s ''.0''"
  by (auto simp add: endswith_dot_zero_iff)

lemma not_endswith_tail:
  assumes "2 \<le> length y" and "CHR ''.'' \<notin> set y"
  shows "\<not> endswith (x @ y) ''.0''"
proof
  have two: "length ''.0'' = 2"
    by simp
  assume "endswith (x @ y) ''.0''"
  then have "drop (length (x @ y) - length ''.0'') (x @ y) = ''.0''"
    by (simp only: endswith_def)
  then have "drop (length (x @ y) - 2) (x @ y) = ''.0''"
    by (simp only: two)
  moreover have "drop (length (x @ y) - 2) (x @ y) = drop (length y - 2) y"
    using assms(1) by simp
  ultimately have "drop (length y - 2) y = ''.0''"
    by (simp only:)
  then have "CHR ''.'' \<in> set (drop (length y - 2) y)"
    by simp
  then have "CHR ''.'' \<in> set y"
    by (rule in_set_dropD)
  with assms(2) show False by simp
qed


lemma float_str_whole:
  assumes "0 \<le> e" and "int (length (str_nat m)) + e \<le> 16"
  shows "endswith (py_float_str neg m e) ''.0''"
proof -
  have "py_float_str neg m e
          = ((if neg then ''-'' else []) @ str_nat m @ replicate (nat e) CHR ''0'') @ ''.0''"
    using assms by (simp add: py_float_str_def Let_def)
  then show ?thesis
    by (simp only: endswith_dot_zero_iff) blast
qed

lemma pad_two:
  assumes "xs \<noteq> []"
  shows "2 \<le> length (if length xs < 2 then ''0'' @ xs else xs)"
proof -
  from assms have "1 \<le> length xs"
    by (cases xs) simp_all
  then show ?thesis by (cases "length xs < 2") simp_all
qed

lemma float_str_exponent:
  assumes "int (length (str_nat m)) + e \<le> - 4 \<or> 16 < int (length (str_nat m)) + e"
  shows "\<not> endswith (py_float_str neg m e) ''.0''"
proof -
  let ?ds = "str_nat m"
  let ?decpt = "int (length ?ds) + e"
  let ?sign = "(if neg then ''-'' else [])"
  let ?xs = "str_nat (nat \<bar>?decpt - 1\<bar>)"
  let ?pad = "(if length ?xs < 2 then ''0'' @ ?xs else ?xs)"
  let ?front = "?sign @ take 1 ?ds @ (if 1 < length ?ds then ''.'' @ drop 1 ?ds else [])
                  @ ''e'' @ (if ?decpt - 1 < 0 then ''-'' else ''+'')"
  have cond: "\<not> (- 4 < ?decpt \<and> ?decpt \<le> 16)"
    using assms by auto
  have "py_float_str neg m e = ?sign @
      (if - 4 < ?decpt \<and> ?decpt \<le> 16 then
               (if 0 \<le> e then ?ds @ replicate (nat e) CHR ''0'' @ ''.0''
                else if 0 < ?decpt then take (nat ?decpt) ?ds @ ''.'' @ drop (nat ?decpt) ?ds
                else ''0.'' @ replicate (nat (- ?decpt)) CHR ''0'' @ ?ds)
             else take 1 ?ds @ (if 1 < length ?ds then ''.'' @ drop 1 ?ds else [])
                   @ ''e'' @ (if ?decpt - 1 < 0 then ''-'' else ''+'') @ ?pad)"
    unfolding py_float_str_def Let_def by (rule refl)
  also have "\<dots> = ?sign @ take 1 ?ds @ (if 1 < length ?ds then ''.'' @ drop 1 ?ds else [])
                   @ ''e'' @ (if ?decpt - 1 < 0 then ''-'' else ''+'') @ ?pad"
    by (simp only: cond if_False)
  also have "\<dots> = ?front @ ?pad"
    by (simp only: append_assoc)
  finally have "py_float_str neg m e = ?front @ ?pad" .
  moreover have "2 \<le> length ?pad"
    by (rule pad_two) (rule str_nat_nonempty)
  moreover have "CHR ''.'' \<notin> set ?pad"
    using str_nat_no_dot [of "nat \<bar>?decpt - 1\<bar>"] by simp
  ultimately show ?thesis
    by (simp only: not_endswith_tail not_False_eq_True)
qed


lemma whole_float_digits:
  assumes "float_wf m e" and "0 \<le> e" and "m * 10 ^ nat e < 10 ^ 16"
  shows "int (length (str_nat m)) + e \<le> 16"
proof (cases "m = 0")
  case True
  with assms(1) have "e = 0" by (simp add: float_wf_def)
  moreover have "length (str_nat 0) = 1"
    by (subst str_nat.simps) simp
  ultimately show ?thesis using True by simp
next
  case False
  then have "1 * 10 ^ nat e \<le> m * 10 ^ nat e"
    by (intro mult_le_mono1) simp
  then have "10 ^ nat e \<le> m * 10 ^ nat e"
    by (simp only: mult_1)
  from this assms(3) have "(10::nat) ^ nat e < 10 ^ 16"
    by (rule le_less_trans)
  moreover have "(1::nat) < 10"
    by simp
  ultimately have e: "nat e < 16"
    by (rule power_less_imp_less_exp [rotated])
  then have "16 - nat e + nat e = 16"
    by simp
  then have "(10::nat) ^ 16 = 10 ^ (16 - nat e + nat e)"
    by (simp only:)
  also have "\<dots> = 10 ^ (16 - nat e) * 10 ^ nat e"
    by (rule power_add)
  finally have "m * 10 ^ nat e < 10 ^ (16 - nat e) * 10 ^ nat e"
    using assms(3) by (simp only:)
  then have "m < 10 ^ (16 - nat e)"
    by (simp only: mult_less_cancel2)
  moreover have "0 < 16 - nat e"
    using e by simp
  ultimately have "length (str_nat m) \<le> 16 - nat e"
    by (simp only: length_str_nat)
  with e assms(2) show ?thesis by simp
qed

section \<open>Removing the \<^verbatim>\<open>.0\<close>\<close>

lemma remove_dot_zero_whole:
  assumes "float_wf m e" and "0 \<le> e" and "m * 10 ^ nat e < 10 ^ 16"
  shows "remove_dot_zero (CFloat neg m e)
           = Inr (CInt (if neg then - int (m * 10 ^ nat e) else int (m * 10 ^ nat e)))"
proof -
  have "endswith (py_float_str neg m e) ''.0''"
    using assms(2) whole_float_digits [OF assms] by (rule float_str_whole)
  then show ?thesis
    using assms(2) by (simp add: remove_dot_zero_def float_trunc_def)
qed


lemma remove_dot_zero_large:
  assumes "16 < int (length (str_nat m)) + e"
  shows "remove_dot_zero (CFloat neg m e) = Inr (CFloat neg m e)"
proof -
  from assms have "int (length (str_nat m)) + e \<le> - 4 \<or> 16 < int (length (str_nat m)) + e"
    by simp
  from float_str_exponent [OF this] show ?thesis
    by (simp add: remove_dot_zero_def)
qed

lemma remove_dot_zero_int:
  "remove_dot_zero (CInt i) = Inr (CInt i)"
proof -
  have "CHR ''.'' \<notin> set (str_int i)"
    using str_nat_no_dot by (simp add: str_int_def)
  then have "\<not> endswith (py_str (CInt i)) ''.0''"
    by (simp add: not_endswith_no_dot)
  then show ?thesis
    by (simp add: remove_dot_zero_def)
qed

lemma remove_dot_zero_other:
  "remove_dot_zero CNaN = Inr CNaN"
  "remove_dot_zero (CInf neg) = Inr (CInf neg)"
  "remove_dot_zero (CBool b) = Inr (CBool b)"
  by (simp_all add: remove_dot_zero_def endswith_def)

lemma remove_dot_zero_str:
  "\<not> endswith s ''.0'' \<Longrightarrow> remove_dot_zero (CStr s) = Inr (CStr s)"
  by (simp add: remove_dot_zero_def)

lemma map_err_Inr:
  "map_err f xs = Inr ys \<Longrightarrow>
     length ys = length xs \<and> (\<forall>i<length xs. f (xs ! i) = Inr (ys ! i))"
proof (induction xs arbitrary: ys)
  case Nil
  then show ?case by simp
next
  case (Cons x xs)
  from Cons.prems obtain y ys' where y: "f x = Inr y" and ys': "map_err f xs = Inr ys'"
    and ys: "ys = y # ys'"
    by (auto simp add: bind_err_eq_Inr)
  from Cons.IH [OF ys'] have "length ys' = length xs"
    and "\<forall>i<length xs. f (xs ! i) = Inr (ys' ! i)"
    by simp_all
  with y ys show ?case
    by (auto simp add: nth_Cons split: nat.splits)
qed

lemma parse_digits_dot:
  "CHR ''.'' \<in> set cs \<Longrightarrow> parse_digits cs acc = None"
proof (induction cs arbitrary: acc)
  case Nil
  then show ?case by simp
next
  case (Cons c cs)
  show ?case
  proof (cases "c = CHR ''.''")
    case True
    then show ?thesis by (simp add: is_digit_def)
  next
    case False
    with Cons.prems have "CHR ''.'' \<in> set cs" by simp
    then have "parse_digits cs a = None" for a
      by (rule Cons.IH)
    then show ?thesis
      by (simp split: list.splits)
  qed
qed

lemma dropWhile_keeps:
  "x \<in> set xs \<Longrightarrow> \<not> P x \<Longrightarrow> x \<in> set (dropWhile P xs)"
  by (induction xs) auto

lemma py_int_of_str_dot:
  assumes "CHR ''.'' \<in> set s"
  shows "py_int_of_str s = Inl ValueError"
proof -
  have sp: "\<not> is_space CHR ''.''"
    by (simp add: is_space_def)
  from assms have "CHR ''.'' \<in> set (rev (dropWhile is_space s))"
    using sp by (simp add: dropWhile_keeps)
  then have "CHR ''.'' \<in> set (dropWhile is_space (rev (dropWhile is_space s)))"
    using sp by (rule dropWhile_keeps)
  then have dot: "CHR ''.'' \<in> set (skip_spaces s)"
    by (simp add: skip_spaces_def)
  let ?body = "case skip_spaces s of [] \<Rightarrow> []
               | c # r \<Rightarrow> if c = CHR ''-'' \<or> c = CHR ''+'' then r else skip_spaces s"
  from dot have "CHR ''.'' \<in> set ?body"
    by (cases "skip_spaces s") auto
  then have "parse_digits ?body 0 = None"
    by (rule parse_digits_dot)
  then show ?thesis
    by (simp add: py_int_of_str_def Let_def split: list.splits)
qed

lemma remove_dot_zero_str_raises:
  assumes "endswith s ''.0''"
  shows "remove_dot_zero (CStr s) = Inl ValueError"
proof -
  from assms obtain p where "s = p @ ''.0''"
    by (auto simp add: endswith_dot_zero_iff)
  then have "CHR ''.'' \<in> set s" by simp
  then have "py_int_of_str s = Inl ValueError"
    by (rule py_int_of_str_dot)
  with assms show ?thesis
    by (simp add: remove_dot_zero_def)
qed

lemma py_int_of_str_error:
  "py_int_of_str s = Inl e \<Longrightarrow> e = ValueError"
  by (auto simp add: py_int_of_str_def Let_def split: list.splits if_splits option.splits)

lemma remove_dot_zero_error:
  assumes "remove_dot_zero c = Inl e"
  shows "e = ValueError"
proof (cases c)
  case (CStr s)
  with assms have "py_int_of_str s = Inl e"
    by (cases "py_int_of_str s") (auto simp add: remove_dot_zero_def split: if_splits)
  then show ?thesis by (rule py_int_of_str_error)
next
  case (CInt i)
  with assms show ?thesis by (simp add: remove_dot_zero_int)
next
  case (CFloat neg m ex)
  with assms show ?thesis by (simp add: remove_dot_zero_def split: if_splits)
next
  case CNaN
  with assms show ?thesis by (simp add: remove_dot_zero_other)
next
  case (CInf neg)
  with assms show ?thesis by (simp add: remove_dot_zero_other)
next
  case (CBool b)
  with assms show ?thesis by (simp add: remove_dot_zero_other)
qed


lemma remove_dot_zero_number:
  assumes "remove_dot_zero c = Inr c'" and "cell_dtype c \<noteq> Object"
  shows "cell_dtype c' \<noteq> Object"
  using assms
  by (cases c) (auto simp add: remove_dot_zero_def bind_err_def split: if_splits)

subsection \<open>The dtype of a column after the scan\<close>

lemma join_dtypes_length:
  "length (join_dtypes a b) = max (length a) (length b)"
  by (induction a b rule: join_dtypes.induct) simp_all

lemma join_dtypes_nth:
  "j < length (join_dtypes a b) \<Longrightarrow>
     join_dtypes a b ! j
       = (if j < length a then (if j < length b then common_dtype (a ! j) (b ! j) else a ! j)
          else b ! j)"
proof (induction a b arbitrary: j rule: join_dtypes.induct)
  case (3 a as b bs)
  then show ?case by (cases j) simp_all
qed simp_all

lemma column_dtypes_covers:
  "row \<in> set t \<Longrightarrow> length row \<le> length (column_dtypes t)"
  by (induction t) (auto simp add: join_dtypes_length)


lemma common_dtype_float:
  "a \<noteq> Object \<Longrightarrow> b \<noteq> Object \<Longrightarrow> a = Float64 \<or> b = Float64 \<Longrightarrow> common_dtype a b = Float64"
  by (cases a; cases b) simp_all

lemma common_dtype_number:
  "a \<noteq> Object \<Longrightarrow> b \<noteq> Object \<Longrightarrow> common_dtype a b \<noteq> Object"
  by (cases a; cases b) simp_all

lemma column_of_numbers:
  assumes "\<forall>row\<in>set t. j < length row \<longrightarrow> cell_dtype (row ! j) \<noteq> Object"
    and "j < length (column_dtypes t)"
  shows "column_dtypes t ! j \<noteq> Object"
  using assms
proof (induction t)
  case Nil
  then show ?case by simp
next
  case (Cons row rows)
  let ?a = "map cell_dtype row" and ?b = "column_dtypes rows"
  from Cons.prems(2) have j: "j < length (join_dtypes ?a ?b)"
    by simp
  have tail: "?b ! j \<noteq> Object" if "j < length ?b"
    using Cons.IH that Cons.prems(1) by simp
  have head: "?a ! j \<noteq> Object" if "j < length row"
    using that Cons.prems(1) by simp
  from j have "j < length row \<or> j < length ?b"
    by (simp add: join_dtypes_length less_max_iff_disj)
  with head tail show ?case
    by (auto simp add: join_dtypes_nth [OF j] common_dtype_number)
qed

lemma column_with_float:
  assumes "\<forall>row\<in>set t. j < length row \<longrightarrow> cell_dtype (row ! j) \<noteq> Object"
    and "row \<in> set t" and "j < length row" and "cell_dtype (row ! j) = Float64"
  shows "column_dtypes t ! j = Float64"
  using assms(1,2)
proof (induction t)
  case Nil
  then show ?case by simp
next
  case (Cons r rows)
  let ?a = "map cell_dtype r" and ?b = "column_dtypes rows"
  have tail: "?b ! j \<noteq> Object" if "j < length ?b"
    using column_of_numbers [OF _ that] Cons.prems(1) by simp
  have head: "?a ! j \<noteq> Object" if "j < length r"
    using that Cons.prems(1) by simp
  show ?case
  proof (cases "row = r")
    case True
    with assms(3) have j: "j < length (join_dtypes ?a ?b)"
      by (simp add: join_dtypes_length)
    from True assms(3,4) have "?a ! j = Float64" and "j < length r"
      by simp_all
    with tail show ?thesis
      by (simp add: join_dtypes_nth [OF j] common_dtype_float)
  next
    case False
    with Cons.prems(2) have row: "row \<in> set rows"
      by simp
    with Cons.IH Cons.prems(1) have b: "?b ! j = Float64"
      by simp
    from column_dtypes_covers [OF row] assms(3) have jb: "j < length ?b"
      by simp
    then have j: "j < length (join_dtypes ?a ?b)"
      by (simp add: join_dtypes_length)
    from b jb head show ?thesis
      by (simp add: join_dtypes_nth [OF j] common_dtype_float)
  qed
qed

lemma applymap_cells:
  assumes "applymap f t = Inr t'"
  shows "\<exists>u. t' = infer_dtypes u \<and> length u = length t
           \<and> (\<forall>k<length t. length (u ! k) = length (t ! k)
                \<and> (\<forall>l<length (t ! k). f (t ! k ! l) = Inr (u ! k ! l)))"
proof -
  from assms obtain u where u: "map_err (map_err f) t = Inr u" and t': "t' = infer_dtypes u"
    by (cases "map_err (map_err f) t") (auto simp add: applymap_def bind_err_def)
  from map_err_Inr [OF u] have rows: "length u = length t"
    and row: "\<forall>k<length t. map_err f (t ! k) = Inr (u ! k)"
    by simp_all
  have "length (u ! k) = length (t ! k) \<and> (\<forall>l<length (t ! k). f (t ! k ! l) = Inr (u ! k ! l))"
    if "k < length t" for k
  proof -
    from row that have "map_err f (t ! k) = Inr (u ! k)"
      by simp
    from map_err_Inr [OF this] show ?thesis .
  qed
  with t' rows show ?thesis
    by blast
qed

lemma drop_zeros_power:
  "m mod 10 \<noteq> 0 \<Longrightarrow> drop_zeros (m * 10 ^ k) e = (m, e + int k)"
proof (induction k arbitrary: e)
  case 0
  then show ?case by (subst drop_zeros.simps) simp
next
  case (Suc k)
  from Suc.prems have "m \<noteq> 0"
    by auto
  then have "drop_zeros (m * 10 ^ Suc k) e = drop_zeros (m * 10 ^ k) (e + 1)"
    by (subst drop_zeros.simps) simp
  with Suc.IH [OF Suc.prems, of "e + 1"] show ?case
    by simp
qed

lemma as_float_of_whole:
  assumes "float_wf m e" and "0 \<le> e" and "m = 0 \<longrightarrow> \<not> neg"
  shows "as_float (CInt (if neg then - int (m * 10 ^ nat e) else int (m * 10 ^ nat e)))
           = CFloat neg m e"
proof (cases "m = 0")
  case True
  with assms(1) have "e = 0"
    by (simp add: float_wf_def)
  moreover have "drop_zeros 0 0 = (0, 0)"
    by (subst drop_zeros.simps) simp
  ultimately show ?thesis
    using True assms(3) by simp
next
  case False
  with assms(1) have "m mod 10 \<noteq> 0"
    by (simp add: float_wf_def)
  from drop_zeros_power [OF this, of "nat e" 0] assms(2)
  have "drop_zeros (m * 10 ^ nat e) 0 = (m, e)"
    by simp
  moreover have "nat (int m * 10 ^ nat e) = m * 10 ^ nat e"
    by (simp add: nat_mult_distrib nat_power_eq)
  moreover have "0 < int m * 10 ^ nat e"
    using False by simp
  ultimately show ?thesis
    by (cases neg) simp_all
qed

text \<open>
  What the scan does not reach. In a column of numbers in which the function leaves a
  float as it is (a \<^verbatim>\<open>nan\<close>, a fraction), the column of the result is \<^verbatim>\<open>float64\<close>
  again: a float of whole value below \<open>10 ^ 16\<close> in it, which the function has turned
  into an int, is stored as the float it was, and is printed with its \<^verbatim>\<open>.0\<close>.
\<close>

lemma float_column_keeps_whole_floats:
  assumes "applymap remove_dot_zero t = Inr t'"
    and "i < length t" and "j < length (t ! i)"
    and "t ! i ! j = CFloat neg m e" and "float_wf m e"
    and "0 \<le> e" and "m * 10 ^ nat e < 10 ^ 16" and "m = 0 \<longrightarrow> \<not> neg"
    and "\<forall>k<length t. j < length (t ! k) \<longrightarrow> cell_dtype (t ! k ! j) \<noteq> Object"
    and "k < length t" and "j < length (t ! k)"
    and "cell_dtype (t ! k ! j) = Float64" and "remove_dot_zero (t ! k ! j) = Inr (t ! k ! j)"
  shows "t' ! i ! j = CFloat neg m e"
proof -
  from applymap_cells [OF assms(1)] obtain u
    where t': "t' = infer_dtypes u" and rows: "length u = length t"
      and cells: "\<forall>k<length t. length (u ! k) = length (t ! k)
                    \<and> (\<forall>l<length (t ! k). remove_dot_zero (t ! k ! l) = Inr (u ! k ! l))"
    by (elim exE conjE) (rule that)
  let ?v = "if neg then - int (m * 10 ^ nat e) else int (m * 10 ^ nat e)"
  from cells assms(2) have len: "length (u ! i) = length (t ! i)"
    and "\<forall>l<length (t ! i). remove_dot_zero (t ! i ! l) = Inr (u ! i ! l)"
    by simp_all
  from this(2) assms(3) have "remove_dot_zero (t ! i ! j) = Inr (u ! i ! j)"
    by simp
  then have "remove_dot_zero (CFloat neg m e) = Inr (u ! i ! j)"
    by (simp only: assms(4))
  with remove_dot_zero_whole [OF assms(5,6,7), of neg] have cell: "u ! i ! j = CInt ?v"
    by simp
  have numbers: "\<forall>row\<in>set u. j < length row \<longrightarrow> cell_dtype (row ! j) \<noteq> Object"
  proof (intro ballI impI)
    fix row
    assume "row \<in> set u" and j: "j < length row"
    then obtain n where n: "n < length u" and row: "row = u ! n"
      by (auto simp add: in_set_conv_nth)
    from n rows cells j row have "remove_dot_zero (t ! n ! j) = Inr (u ! n ! j)"
      and "j < length (t ! n)"
      by auto
    moreover from this(2) n rows assms(9) have "cell_dtype (t ! n ! j) \<noteq> Object"
      by simp
    ultimately show "cell_dtype (row ! j) \<noteq> Object"
      using row by (simp add: remove_dot_zero_number)
  qed
  from cells assms(10,11,13) have "u ! k ! j = t ! k ! j" and "length (u ! k) = length (t ! k)"
    by auto
  with assms(10,11,12) rows
  have "u ! k \<in> set u" and "j < length (u ! k)" and "cell_dtype (u ! k ! j) = Float64"
    by simp_all
  from column_with_float [OF numbers this]
  have float: "column_dtypes u ! j = Float64" .
  have "u ! i \<in> set u"
    using assms(2) rows by simp
  from column_dtypes_covers [OF this] len assms(3) have "j < length (column_dtypes u)"
    by simp
  with float t' assms(2,3) rows len cell
  have "t' ! i ! j = as_float (CInt ?v)"
    by (simp add: infer_dtypes_row astype_row_nth)
  with as_float_of_whole [OF assms(5,6,8)] show ?thesis
    by simp
qed





end
